theory Spec2Isabelle
  imports Complex_Main "HOL-Library.Log_Nat"
begin

section \<open>Data model\<close>

text \<open>
  The three tables of the store (Prisma models \<open>User\<close>, \<open>Group\<close>, \<open>GroupMember\<close>).
  Primary keys are generated by the ORM; they are modelled as natural numbers drawn
  from a counter kept with the store, so that every generated key is new.
  Timestamps are milliseconds since the epoch (\<open>int\<close>); a nullable column is an
  \<open>option\<close>. The bookkeeping columns \<open>createdAt\<close>, \<open>updatedAt\<close> and \<open>joinedAt\<close>,
  which no handler decision reads, are left out.
\<close>

record user =
  u_id :: nat
  u_deviceToken :: string
  u_name :: "string option"

record group =
  g_id :: nat
  g_inviteCode :: string
  g_modelId :: string
  g_creatorId :: nat
  g_title :: "string option"
  g_description :: "string option"
  g_expiresAt :: "int option"

record groupMember =
  m_id :: nat
  m_userId :: nat
  m_groupId :: nat

record store =
  users :: "user list"
  groups :: "group list"
  groupMembers :: "groupMember list"
  nextId :: nat

definition emptyStore :: store where
  "emptyStore = \<lparr>users = [], groups = [], groupMembers = [], nextId = 0\<rparr>"

text \<open>\<open>prisma.user.findUnique({ where: { deviceToken } })\<close>\<close>

definition findUserByToken :: "store \<Rightarrow> string \<Rightarrow> user option" where
  "findUserByToken s deviceToken = find (\<lambda>u. u_deviceToken u = deviceToken) (users s)"

text \<open>\<open>prisma.group.findUnique({ where: { inviteCode } })\<close>\<close>

definition findGroupByCode :: "store \<Rightarrow> string \<Rightarrow> group option" where
  "findGroupByCode s inviteCode = find (\<lambda>g. g_inviteCode g = inviteCode) (groups s)"

text \<open>\<open>prisma.groupMember.findUnique({ where: { userId_groupId: { userId, groupId } } })\<close>\<close>

definition findMembership :: "store \<Rightarrow> nat \<Rightarrow> nat \<Rightarrow> groupMember option" where
  "findMembership s userId groupId =
     find (\<lambda>m. m_userId m = userId \<and> m_groupId m = groupId) (groupMembers s)"

text \<open>The relation \<open>group.members\<close> loaded by \<open>include: { members: ... }\<close>.\<close>

definition membersOf :: "store \<Rightarrow> nat \<Rightarrow> groupMember list" where
  "membersOf s groupId = filter (\<lambda>m. m_groupId m = groupId) (groupMembers s)"

text \<open>The three \<open>create\<close> calls: the row gets the next key and is appended to its table.\<close>

definition createUser :: "store \<Rightarrow> string \<Rightarrow> user \<times> store" where
  "createUser s deviceToken =
     (let u = \<lparr>u_id = nextId s, u_deviceToken = deviceToken, u_name = None\<rparr>
      in (u, s\<lparr>users := users s @ [u], nextId := nextId s + 1\<rparr>))"

definition createGroupRow ::
  "store \<Rightarrow> string \<Rightarrow> string \<Rightarrow> nat \<Rightarrow> string option \<Rightarrow> string option \<Rightarrow> int option
     \<Rightarrow> group \<times> store" where
  "createGroupRow s inviteCode modelId creatorId title description expiresAt =
     (let g = \<lparr>g_id = nextId s, g_inviteCode = inviteCode, g_modelId = modelId,
               g_creatorId = creatorId, g_title = title, g_description = description,
               g_expiresAt = expiresAt\<rparr>
      in (g, s\<lparr>groups := groups s @ [g], nextId := nextId s + 1\<rparr>))"

definition createGroupMember :: "store \<Rightarrow> nat \<Rightarrow> nat \<Rightarrow> store" where
  "createGroupMember s userId groupId =
     s\<lparr>groupMembers := groupMembers s @ [\<lparr>m_id = nextId s, m_userId = userId, m_groupId = groupId\<rparr>],
       nextId := nextId s + 1\<rparr>"

section \<open>JavaScript numbers\<close>

text \<open>
  A Number is an IEEE 754 double. A finite one is modelled by the rational it denotes
  (the two zeros are one value), and every arithmetic operation is the exact operation
  followed by rounding to the nearest double, ties to even, as the language defines it.
\<close>

datatype number = Num rat | PosInf | NegInf | NaN

text \<open>The binade of a positive rational \<open>x\<close>: the exponent \<open>e\<close> with
  \<open>2 powi e \<le> x < 2 powi (e + 1)\<close>, computed from the bit length of an integer.\<close>

definition binade :: "rat \<Rightarrow> int" where
  "binade x = (if 1 \<le> x then bitlen \<lfloor>x\<rfloor> - 1 else - bitlen (\<lceil>1 / x\<rceil> - 1))"

text \<open>Rounding to the nearest integer, ties to the even one.\<close>

definition roundHalfEven :: "rat \<Rightarrow> int" where
  "roundHalfEven q =
     (let f = \<lfloor>q\<rfloor>; d = q - of_int f
      in if d < 1 / 2 then f else if 1 / 2 < d then f + 1 else if even f then f else f + 1)"

text \<open>The spacing of the doubles around a positive \<open>x\<close>: 53 significant bits in the
  normal range, \<open>2 powi (- 1074)\<close> below it. A result of \<open>2 powi 1024\<close> or more
  overflows to infinity.\<close>

definition ulpOf :: "rat \<Rightarrow> rat" where
  "ulpOf x = 2 powi (max (binade x) (- 1022) - 52)"

definition overflowThreshold :: rat where
  "overflowThreshold = 2 powi 1024"

definition roundPos :: "rat \<Rightarrow> number" where
  "roundPos x =
     (let y = of_int (roundHalfEven (x / ulpOf x)) * ulpOf x
      in if overflowThreshold \<le> y then PosInf else Num y)"

definition negate :: "number \<Rightarrow> number" where
  "negate n = (case n of Num x \<Rightarrow> Num (- x) | PosInf \<Rightarrow> NegInf | NegInf \<Rightarrow> PosInf | NaN \<Rightarrow> NaN)"

definition roundToDouble :: "rat \<Rightarrow> number" where
  "roundToDouble x =
     (if x = 0 then Num 0 else if 0 < x then roundPos x else negate (roundPos (- x)))"

text \<open>The rationals that are doubles are those that rounding leaves alone.\<close>

definition isDouble :: "rat \<Rightarrow> bool" where
  "isDouble x = (roundToDouble x = Num x)"

text \<open>The operators \<open>*\<close> and \<open>+\<close> on Numbers.\<close>

fun jsMul :: "number \<Rightarrow> number \<Rightarrow> number" where
  "jsMul (Num a) (Num b) = roundToDouble (a * b)"
| "jsMul NaN y = NaN"
| "jsMul x NaN = NaN"
| "jsMul (Num a) PosInf = (if a = 0 then NaN else if 0 < a then PosInf else NegInf)"
| "jsMul (Num a) NegInf = (if a = 0 then NaN else if 0 < a then NegInf else PosInf)"
| "jsMul PosInf (Num b) = (if b = 0 then NaN else if 0 < b then PosInf else NegInf)"
| "jsMul NegInf (Num b) = (if b = 0 then NaN else if 0 < b then NegInf else PosInf)"
| "jsMul PosInf PosInf = PosInf"
| "jsMul PosInf NegInf = NegInf"
| "jsMul NegInf PosInf = NegInf"
| "jsMul NegInf NegInf = PosInf"

fun jsAdd :: "number \<Rightarrow> number \<Rightarrow> number" where
  "jsAdd (Num a) (Num b) = roundToDouble (a + b)"
| "jsAdd NaN y = NaN"
| "jsAdd x NaN = NaN"
| "jsAdd PosInf NegInf = NaN"
| "jsAdd NegInf PosInf = NaN"
| "jsAdd PosInf y = PosInf"
| "jsAdd x PosInf = PosInf"
| "jsAdd NegInf y = NegInf"
| "jsAdd x NegInf = NegInf"

text \<open>\<open>Math.floor\<close>, and the truncation towards zero that \<open>charAt\<close> and \<open>new Date\<close>
  apply to a finite argument.\<close>

definition mathFloor :: "number \<Rightarrow> number" where
  "mathFloor n = (case n of Num x \<Rightarrow> Num (of_int \<lfloor>x\<rfloor>) | _ \<Rightarrow> n)"

definition truncateMs :: "rat \<Rightarrow> int" where
  "truncateMs t = (if 0 \<le> t then \<lfloor>t\<rfloor> else \<lceil>t\<rceil>)"

text \<open>\<open>JSON.parse\<close> turns a number literal into the nearest Number: a literal too
  small becomes 0, one too large an infinity.\<close>

definition jsonNumber :: "rat \<Rightarrow> number" where
  "jsonNumber literal = roundToDouble literal"

section \<open>Helpers of \<open>index.ts\<close>\<close>

subsection \<open>\<open>generateInviteCode\<close>\<close>

text \<open>
  \<open>Math.random()\<close> is an input of the model: \<open>rnd i\<close> is the value of the \<open>i\<close>-th call
  made while the request is handled, a Number that the language promises to lie in
  \<open>[0, 1)\<close>. Its product with \<open>chars.length\<close> is the rounded product of two Numbers.
\<close>

definition chars :: string where
  "chars = ''abcdefghijklmnopqrstuvwxyz0123456789''"

text \<open>\<open>String.prototype.charAt\<close>: the position is the argument truncated to an integer
  (0 for NaN), and the result is the empty string when the position is out of range.\<close>

definition charAt :: "string \<Rightarrow> number \<Rightarrow> string" where
  "charAt s pos =
     (case pos of
        Num x \<Rightarrow>
          (let i = truncateMs x
           in if 0 \<le> i \<and> i < int (length s) then [s ! nat i] else [])
      | NaN \<Rightarrow> take 1 s
      | _ \<Rightarrow> [])"

text \<open>\<open>chars.charAt(Math.floor(Math.random() * chars.length))\<close>, for the \<open>i\<close>-th value of
  \<open>Math.random()\<close>.\<close>

definition drawChar :: "(nat \<Rightarrow> rat) \<Rightarrow> nat \<Rightarrow> string" where
  "drawChar rnd i =
     charAt chars (mathFloor (jsMul (Num (rnd i)) (Num (of_nat (length chars)))))"

text \<open>The loop \<open>for (let i = 0; i < 8; i++) result += chars.charAt(...)\<close>, the draws
  being taken from position \<open>k\<close> of the random source on.\<close>

function generateLoop :: "(nat \<Rightarrow> rat) \<Rightarrow> nat \<Rightarrow> nat \<Rightarrow> string \<Rightarrow> string" where
  "generateLoop rnd k i result =
     (if i < 8
      then generateLoop rnd k (i + 1)
             (result @ drawChar rnd (k + i))
      else result)"
  by pat_completeness auto
termination
  by (relation "measure (\<lambda>(rnd, k, i, result). 8 - i)") auto

declare generateLoop.simps [simp del]

definition generateInviteCode :: "(nat \<Rightarrow> rat) \<Rightarrow> nat \<Rightarrow> string" where
  "generateInviteCode rnd k = generateLoop rnd k 0 ''''"

subsection \<open>\<open>ensureUser\<close>\<close>

definition ensureUser :: "store \<Rightarrow> string \<Rightarrow> user \<times> store" where
  "ensureUser s deviceToken =
     (case findUserByToken s deviceToken of
        Some user \<Rightarrow> (user, s)
      | None \<Rightarrow> createUser s deviceToken)"

subsection \<open>The invite-code allocation loop\<close>

text \<open>
  \<open>do { inviteCode = generateInviteCode(); existing = findUnique(inviteCode);
  isUnique = !existing } while (!isUnique)\<close>. The loop has no bound; a run that never
  leaves it is the value \<open>None\<close>. Each round consumes eight draws.
\<close>

partial_function (option) allocateInviteCode ::
  "(nat \<Rightarrow> rat) \<Rightarrow> store \<Rightarrow> nat \<Rightarrow> string option" where
  "allocateInviteCode rnd s k =
     (let inviteCode = generateInviteCode rnd k
      in if findGroupByCode s inviteCode = None
         then Some inviteCode
         else allocateInviteCode rnd s (k + 8))"

section \<open>Requests, responses and JavaScript truthiness\<close>

text \<open>
  The JSON bodies. A field that the client may leave out is an \<open>option\<close>;
  \<open>expirationHours\<close> is the number as the request text writes it, which parsing
  turns into a Number.
\<close>

record createGroupRequest =
  c_deviceToken :: "string option"
  c_modelId :: "string option"
  c_title :: "string option"
  c_description :: "string option"
  c_expirationHours :: "rat option"

record joinGroupRequest =
  j_deviceToken :: "string option"

text \<open>\<open>!x\<close> on an optional string is true when the field is absent or the empty string;
  on an optional number when it is absent, zero or NaN;
  a \<open>Date\<close> object is always truthy, \<open>null\<close> never.\<close>

definition truthyString :: "string option \<Rightarrow> bool" where
  "truthyString x = (case x of None \<Rightarrow> False | Some t \<Rightarrow> t \<noteq> [])"

definition truthyNumber :: "number option \<Rightarrow> bool" where
  "truthyNumber x =
     (case x of
        None \<Rightarrow> False
      | Some (Num h) \<Rightarrow> h \<noteq> 0
      | Some NaN \<Rightarrow> False
      | Some _ \<Rightarrow> True)"

text \<open>
  \<open>new Date(t)\<close> for a Number \<open>t\<close>: the time value is clipped, that is, truncated
  towards zero to whole milliseconds, and the date is invalid when \<open>t\<close> is not finite
  or lies outside \<open>\<plusminus>8.64e15\<close>.
\<close>

datatype jsDate = DateMs int | InvalidDate

definition newDate :: "number \<Rightarrow> jsDate" where
  "newDate t =
     (case t of
        Num x \<Rightarrow> if \<bar>x\<bar> \<le> 8640000000000000 then DateMs (truncateMs x) else InvalidDate
      | _ \<Rightarrow> InvalidDate)"

record createGroupResponse =
  cr_groupId :: nat
  cr_inviteCode :: string
  cr_inviteUrl :: string
  cr_modelId :: string
  cr_title :: "string option"
  cr_description :: "string option"
  cr_expiresAt :: "int option"
  cr_memberCount :: nat

record joinGroupResponse =
  jr_success :: bool
  jr_groupId :: nat
  jr_modelId :: string
  jr_title :: "string option"
  jr_description :: "string option"
  jr_memberCount :: nat
  jr_message :: string

text \<open>The projection \<open>{ id, name }\<close> of a user row selected through a relation.\<close>

type_synonym userSummary = "nat \<times> string option"

record groupDetailsResponse =
  gd_groupId :: nat
  gd_inviteCode :: string
  gd_modelId :: string
  gd_title :: "string option"
  gd_description :: "string option"
  gd_creator :: "userSummary option"
  gd_expiresAt :: "int option"
  gd_memberCount :: nat
  gd_members :: "userSummary option list"

text \<open>The three HTML documents of the landing route, by their variable parts.\<close>

datatype page =
    GroupNotFoundPage
  | InvitationExpiredPage
  | GroupLandingPage string "string option" string string nat "string list"

datatype body =
    ErrorBody string
  | CreateGroupBody createGroupResponse
  | JoinGroupBody joinGroupResponse
  | GroupDetailsBody groupDetailsResponse
  | HtmlBody page

record response =
  status :: nat
  content :: body

definition jsonResponse :: "body \<Rightarrow> nat \<Rightarrow> response" where
  "jsonResponse data st = \<lparr>status = st, content = data\<rparr>"

definition errorResponse :: "string \<Rightarrow> nat \<Rightarrow> response" where
  "errorResponse message st = jsonResponse (ErrorBody message) st"

text \<open>\<open>new Response(html, { headers })\<close>: no status is given, so the response carries
  the default status 200.\<close>

definition htmlResponse :: "page \<Rightarrow> response" where
  "htmlResponse p = \<lparr>status = 200, content = HtmlBody p\<rparr>"

section \<open>The expiry check\<close>

text \<open>
  \<open>group.expiresAt && group.expiresAt < new Date()\<close>, the condition written in the
  join, get-details and landing-page routes; \<open>now\<close> is the clock read by \<open>new Date()\<close>
  when the condition is evaluated.
\<close>

definition isGroupExpired :: "int option \<Rightarrow> int \<Rightarrow> bool" where
  "isGroupExpired expiresAt now =
     (case expiresAt of None \<Rightarrow> False | Some t \<Rightarrow> t < now)"

section \<open>Route handlers\<close>

text \<open>
  Each handler takes the parsed request, the clock and the store, and returns the
  response with the store it leaves behind. A store call that throws is caught by the
  handler's \<open>catch\<close> and answered with status 500; rows written before the throw stay.
\<close>

subsection \<open>\<open>POST /api/groups\<close>\<close>

text \<open>\<open>body.expirationHours ? new Date(Date.now() + body.expirationHours * 60 * 60 * 1000)
  : null\<close>, with \<open>now\<close> the value of \<open>Date.now()\<close>, a whole number of milliseconds. The
  products are taken from left to right, each one rounded, and so is the sum.\<close>

definition computeExpiresAt :: "number option \<Rightarrow> int \<Rightarrow> jsDate option" where
  "computeExpiresAt expirationHours now =
     (if truthyNumber expirationHours
      then (case expirationHours of
              Some h \<Rightarrow>
                Some (newDate
                        (jsAdd (Num (of_int now))
                           (jsMul (jsMul (jsMul h (Num 60)) (Num 60)) (Num 1000))))
            | None \<Rightarrow> None)
      else None)"

text \<open>
  The result is \<open>None\<close> when the allocation loop never ends. The ORM rejects an invalid
  \<open>Date\<close> argument by throwing, so \<open>group.create\<close> fails for an out-of-range expiry
  and the handler answers 500, after \<open>ensureUser\<close> has run.
\<close>

definition createGroup ::
  "createGroupRequest \<Rightarrow> (nat \<Rightarrow> rat) \<Rightarrow> int \<Rightarrow> store \<Rightarrow> (response \<times> store) option" where
  "createGroup body rnd now s =
     (if \<not> truthyString (c_deviceToken body) \<or> \<not> truthyString (c_modelId body)
      then Some (errorResponse ''deviceToken and modelId are required'' 400, s)
      else
        case (c_deviceToken body, c_modelId body) of
          (Some deviceToken, Some modelId) \<Rightarrow>
            (let (user, s1) = ensureUser s deviceToken in
             case allocateInviteCode rnd s1 0 of
               None \<Rightarrow> None
             | Some inviteCode \<Rightarrow>
                 (let expiresAt =
                        computeExpiresAt (map_option jsonNumber (c_expirationHours body)) now
                  in case expiresAt of
                       Some InvalidDate \<Rightarrow>
                         Some (errorResponse ''Internal server error'' 500, s1)
                     | _ \<Rightarrow>
                         (let stored = (case expiresAt of Some (DateMs t) \<Rightarrow> Some t | _ \<Rightarrow> None);
                              (grp, s2) =
                                createGroupRow s1 inviteCode modelId (u_id user)
                                  (c_title body) (c_description body) stored;
                              s3 = createGroupMember s2 (u_id user) (g_id grp)
                          in Some
                               (jsonResponse
                                  (CreateGroupBody
                                     \<lparr>cr_groupId = g_id grp,
                                      cr_inviteCode = inviteCode,
                                      cr_inviteUrl = ''https://coco.co/g/'' @ inviteCode,
                                      cr_modelId = modelId,
                                      cr_title = c_title body,
                                      cr_description = c_description body,
                                      cr_expiresAt = stored,
                                      cr_memberCount = 1\<rparr>)
                                  201,
                                s3))))
        | _ \<Rightarrow> Some (errorResponse ''deviceToken and modelId are required'' 400, s))"

subsection \<open>\<open>POST /api/groups/:code/join\<close>\<close>

definition joinGroup ::
  "string \<Rightarrow> joinGroupRequest \<Rightarrow> int \<Rightarrow> store \<Rightarrow> response \<times> store" where
  "joinGroup inviteCode body now s =
     (if \<not> truthyString (j_deviceToken body)
      then (errorResponse ''deviceToken is required'' 400, s)
      else
        case j_deviceToken body of
          None \<Rightarrow> (errorResponse ''deviceToken is required'' 400, s)
        | Some deviceToken \<Rightarrow>
            (let (user, s1) = ensureUser s deviceToken in
             case findGroupByCode s1 inviteCode of
               None \<Rightarrow> (errorResponse ''Group not found'' 404, s1)
             | Some grp \<Rightarrow>
                 if isGroupExpired (g_expiresAt grp) now
                 then (errorResponse ''Group invitation has expired'' 410, s1)
                 else
                   (case findMembership s1 (u_id user) (g_id grp) of
                      Some existingMembership \<Rightarrow>
                        (errorResponse ''User is already a member of this group'' 400, s1)
                    | None \<Rightarrow>
                        (jsonResponse
                           (JoinGroupBody
                              \<lparr>jr_success = True,
                               jr_groupId = g_id grp,
                               jr_modelId = g_modelId grp,
                               jr_title = g_title grp,
                               jr_description = g_description grp,
                               jr_memberCount = length (membersOf s1 (g_id grp)) + 1,
                               jr_message = ''Successfully joined the group''\<rparr>)
                           200,
                         createGroupMember s1 (u_id user) (g_id grp)))))"

subsection \<open>\<open>GET /api/groups/:code\<close>\<close>

text \<open>\<open>select: { id: true, name: true }\<close> on the user a foreign key points to.\<close>

definition userSummaryOf :: "store \<Rightarrow> nat \<Rightarrow> userSummary option" where
  "userSummaryOf s userId =
     map_option (\<lambda>u. (u_id u, u_name u)) (find (\<lambda>u. u_id u = userId) (users s))"

definition getGroupDetails :: "string \<Rightarrow> int \<Rightarrow> store \<Rightarrow> response" where
  "getGroupDetails inviteCode now s =
     (case findGroupByCode s inviteCode of
        None \<Rightarrow> errorResponse ''Group not found'' 404
      | Some grp \<Rightarrow>
          if isGroupExpired (g_expiresAt grp) now
          then errorResponse ''Group invitation has expired'' 410
          else jsonResponse
                 (GroupDetailsBody
                    \<lparr>gd_groupId = g_id grp,
                     gd_inviteCode = g_inviteCode grp,
                     gd_modelId = g_modelId grp,
                     gd_title = g_title grp,
                     gd_description = g_description grp,
                     gd_creator = userSummaryOf s (g_creatorId grp),
                     gd_expiresAt = g_expiresAt grp,
                     gd_memberCount = length (membersOf s (g_id grp)),
                     gd_members =
                       map (\<lambda>m. userSummaryOf s (m_userId m)) (membersOf s (g_id grp))\<rparr>)
                 200)"

subsection \<open>\<open>GET /g/:code\<close>\<close>

text \<open>\<open>x || 'fallback'\<close> on an optional string.\<close>

definition orElse :: "string option \<Rightarrow> string \<Rightarrow> string" where
  "orElse x d = (case x of Some t \<Rightarrow> if t \<noteq> [] then t else d | None \<Rightarrow> d)"

definition memberName :: "store \<Rightarrow> groupMember \<Rightarrow> string" where
  "memberName s m =
     orElse (case find (\<lambda>u. u_id u = m_userId m) (users s) of
               Some u \<Rightarrow> u_name u | None \<Rightarrow> None) ''Anonymous''"

definition groupLandingPage :: "string \<Rightarrow> int \<Rightarrow> store \<Rightarrow> response" where
  "groupLandingPage inviteCode now s =
     (case findGroupByCode s inviteCode of
        None \<Rightarrow> htmlResponse GroupNotFoundPage
      | Some grp \<Rightarrow>
          if isGroupExpired (g_expiresAt grp) now
          then htmlResponse InvitationExpiredPage
          else htmlResponse
                 (GroupLandingPage
                    (orElse (g_title grp) ''Join Group'')
                    (if truthyString (g_description grp) then g_description grp else None)
                    (g_modelId grp)
                    (orElse (case find (\<lambda>u. u_id u = g_creatorId grp) (users s) of
                               Some u \<Rightarrow> u_name u | None \<Rightarrow> None) ''Anonymous'')
                    (length (membersOf s (g_id grp)))
                    (map (memberName s) (membersOf s (g_id grp)))))"

section \<open>Store consistency\<close>

text \<open>
  What the schema's keys guarantee of any stored state: every group key has been
  generated already, and every membership row points to a stored group (the foreign
  key \<open>GroupMember.groupId\<close>).
\<close>

definition storeConsistent :: "store \<Rightarrow> bool" where
  "storeConsistent s =
     ((\<forall>g \<in> set (groups s). g_id g < nextId s) \<and>
      (\<forall>m \<in> set (groupMembers s). \<exists>g \<in> set (groups s). g_id g = m_groupId m))"

section \<open>The random source\<close>



section \<open>Concrete inputs\<close>

text \<open>For an index \<open>d\<close> below 36, a double in \<open>[0, 1)\<close> whose product with 36 has
  integer part \<open>d\<close>.\<close>

definition drawFor :: "nat \<Rightarrow> rat" where
  "drawFor d = of_nat (57 * d + 1) / 2048"

text \<open>A random source that always returns 0, so that every generated code is
  \<open>aaaaaaaa\<close>; one whose first eight draws are 0 and all later ones select \<open>b\<close>; and
  one that in round \<open>n\<close> draws the eight base-36 digits of \<open>n\<close>, so that every code is
  drawn in some round.\<close>

definition zeroDraws :: "nat \<Rightarrow> rat" where
  "zeroDraws = (\<lambda>i. 0)"

definition stepDraws :: "nat \<Rightarrow> rat" where
  "stepDraws = (\<lambda>i. if i < 8 then 0 else drawFor 1)"


text \<open>A store with one user who created one group, with invite code \<open>aaaaaaaa\<close>,
  expiring at time 5000.\<close>

definition takenStore :: store where
  "takenStore =
     \<lparr>users = [\<lparr>u_id = 0, u_deviceToken = ''dev-a'', u_name = None\<rparr>],
      groups = [\<lparr>g_id = 1, g_inviteCode = ''aaaaaaaa'', g_modelId = ''m1'', g_creatorId = 0,
                 g_title = None, g_description = None, g_expiresAt = Some 5000\<rparr>],
      groupMembers = [\<lparr>m_id = 2, m_userId = 0, m_groupId = 1\<rparr>],
      nextId = 3\<rparr>"

text \<open>Two create-group requests: one asking for an expiry in one hour, one asking
  for an expiry of zero hours.\<close>

definition oneHourRequest :: createGroupRequest where
  "oneHourRequest =
     \<lparr>c_deviceToken = Some ''dev-b'', c_modelId = Some ''m2'', c_title = Some ''Chairs'',
      c_description = None, c_expirationHours = Some 1\<rparr>"

definition zeroHoursRequest :: createGroupRequest where
  "zeroHoursRequest =
     \<lparr>c_deviceToken = Some ''dev-a'', c_modelId = Some ''m1'', c_title = None,
      c_description = None, c_expirationHours = Some 0\<rparr>"

section \<open>Rounding to a double\<close>

text \<open>The binade is what its name says.\<close>

lemma binade_bounds:
  assumes "0 < x"
  shows "2 powi binade x \<le> x \<and> x < 2 powi (binade x + 1)"
proof (cases "1 \<le> x")
  case True
  let ?n = "\<lfloor>x\<rfloor>"
  have n: "0 < ?n" using True by simp
  from bitlen_bounds [OF n] have b: "2 ^ nat (bitlen ?n - 1) \<le> ?n" "?n < 2 ^ nat (bitlen ?n)"
    by simp_all
  have b1: "1 \<le> bitlen ?n" using n by (simp add: bitlen_alt_def)
  have "(2::rat) powi (bitlen ?n - 1) = of_int (2 ^ nat (bitlen ?n - 1))"
    using b1 by (simp add: power_int_def)
  also have "\<dots> \<le> of_int ?n" using b(1) by (simp only: of_int_le_iff)
  also have "\<dots> \<le> x" by simp
  finally have lo: "2 powi (bitlen ?n - 1) \<le> x" .
  have "?n + 1 \<le> 2 ^ nat (bitlen ?n)" using b(2) by simp
  then have "(of_int (?n + 1) :: rat) \<le> of_int (2 ^ nat (bitlen ?n))" by (simp only: of_int_le_iff)
  moreover have "x < of_int (?n + 1)" by linarith
  ultimately have "x < of_int (2 ^ nat (bitlen ?n))" by linarith
  moreover have "(2::rat) powi (bitlen ?n) = of_int (2 ^ nat (bitlen ?n))"
    using b1 by (simp add: power_int_def)
  ultimately have hi: "x < 2 powi (bitlen ?n)" by simp
  from lo hi True show ?thesis by (simp add: binade_def)
next
  case False
  let ?y = "1 / x"
  let ?m = "\<lceil>?y\<rceil> - 1"
  have y: "1 < ?y" using False assms by simp
  then have m: "0 < ?m" by linarith
  from bitlen_bounds [OF m] have b: "2 ^ nat (bitlen ?m - 1) \<le> ?m" "?m < 2 ^ nat (bitlen ?m)"
    by simp_all
  have b1: "1 \<le> bitlen ?m" using m by (simp add: bitlen_alt_def)
  have my: "of_int ?m < ?y" "?y \<le> of_int (?m + 1)" by linarith+
  have "?m + 1 \<le> 2 ^ nat (bitlen ?m)" using b(2) by simp
  then have "(of_int (?m + 1) :: rat) \<le> of_int (2 ^ nat (bitlen ?m))" by (simp only: of_int_le_iff)
  also have "(of_int (2 ^ nat (bitlen ?m)) :: rat) = 2 ^ nat (bitlen ?m)" by simp
  finally have "?y \<le> 2 ^ nat (bitlen ?m)" using my(2) by linarith
  then have "1 \<le> x * 2 ^ nat (bitlen ?m)" using assms by (simp add: field_simps)
  then have lo: "2 powi (- bitlen ?m) \<le> x"
    using b1 by (simp add: power_int_def field_simps)
  have "(of_int (2 ^ nat (bitlen ?m - 1)) :: rat) \<le> of_int ?m" using b(1) by (simp only: of_int_le_iff)
  moreover have "(of_int (2 ^ nat (bitlen ?m - 1)) :: rat) = 2 ^ nat (bitlen ?m - 1)" by simp
  ultimately have "2 ^ nat (bitlen ?m - 1) < ?y" using my(1) by linarith
  then have "x * 2 ^ nat (bitlen ?m - 1) < 1" using assms by (simp add: field_simps)
  then have hi: "x < 2 powi (- bitlen ?m + 1)"
    using b1 by (auto simp: power_int_def field_simps nat_diff_distrib)
  from lo hi False show ?thesis by (simp add: binade_def)
qed

lemma binade_eqI:
  assumes "0 < x" "2 powi e \<le> x" "x < 2 powi (e + 1)"
  shows "binade x = e"
proof (rule antisym)
  show "binade x \<le> e"
  proof (rule ccontr)
    assume "\<not> binade x \<le> e"
    then have "e + 1 \<le> binade x" by simp
    then have "(2::rat) powi (e + 1) \<le> 2 powi binade x" by (intro power_int_increasing) simp_all
    with binade_bounds [OF assms(1)] assms(3) show False by linarith
  qed
  show "e \<le> binade x"
  proof (rule ccontr)
    assume "\<not> e \<le> binade x"
    then have "binade x + 1 \<le> e" by simp
    then have "(2::rat) powi (binade x + 1) \<le> 2 powi e" by (intro power_int_increasing) simp_all
    with binade_bounds [OF assms(1)] assms(2) show False by linarith
  qed
qed

lemma roundHalfEven_of_int [simp]: "roundHalfEven (of_int n) = n"
  by (simp add: roundHalfEven_def)

lemma roundHalfEven_upper: "of_int (roundHalfEven q) \<le> q + 1 / 2"
  unfolding roundHalfEven_def Let_def by (auto; linarith)

lemma roundHalfEven_lower: "q - 1 / 2 \<le> of_int (roundHalfEven q)"
  unfolding roundHalfEven_def Let_def by (auto; linarith)

lemma roundHalfEven_le_int:
  assumes "q \<le> of_int N"
  shows "roundHalfEven q \<le> N"
proof (cases "q = of_int N")
  case True
  then show ?thesis by simp
next
  case False
  with assms have "q < of_int N" by simp
  then have "\<lfloor>q\<rfloor> < N" by (simp add: floor_less_iff)
  then show ?thesis unfolding roundHalfEven_def Let_def by auto
qed

lemma roundHalfEven_nonneg: "0 \<le> q \<Longrightarrow> 0 \<le> roundHalfEven q"
  unfolding roundHalfEven_def Let_def by auto

text \<open>Rounding a positive number below a power of two stays at or below that power,
  and never overflows within the exponent range.\<close>

lemma roundPos_NumI:
  assumes "of_int (roundHalfEven (x / ulpOf x)) * ulpOf x = y" "y < overflowThreshold"
  shows "roundPos x = Num y"
  using assms by (simp add: roundPos_def Let_def)

lemma roundPos_NumD:
  assumes "roundPos x = Num y"
  shows "y = of_int (roundHalfEven (x / ulpOf x)) * ulpOf x"
  using assms by (simp add: roundPos_def Let_def split: if_splits)

lemma ulpOf_eq: "binade x = e \<Longrightarrow> - 1022 \<le> e \<Longrightarrow> ulpOf x = 2 powi (e - 52)"
  by (simp add: ulpOf_def)

lemma below_overflow: "y \<le> 2 powi k \<Longrightarrow> k \<le> 1023 \<Longrightarrow> y < overflowThreshold"
proof -
  assume "y \<le> 2 powi k" "k \<le> 1023"
  moreover from this have "(2::rat) powi k < 2 powi 1024"
    by (intro power_int_strict_increasing) simp_all
  ultimately show ?thesis unfolding overflowThreshold_def by linarith
qed

lemma roundPos_upper:
  assumes "0 < x" "x < 2 powi k" "- 1021 \<le> k" "k \<le> 1023"
  shows "\<exists>y. roundPos x = Num y \<and> 0 \<le> y \<and> y \<le> 2 powi k"
proof -
  define e where "e = max (binade x) (- 1022)"
  define ulp :: rat where "ulp = 2 powi (e - 52)"
  have ulpOf: "ulpOf x = ulp" by (simp add: ulpOf_def ulp_def e_def)
  define n where "n = roundHalfEven (x / ulp)"
  have "binade x < k"
  proof (rule ccontr)
    assume "\<not> binade x < k"
    then have "(2::rat) powi k \<le> 2 powi binade x" by (intro power_int_increasing) simp_all
    with binade_bounds [OF assms(1)] assms(2) show False by linarith
  qed
  with assms(3) have ek: "e \<le> k - 1" by (simp add: e_def)
  have ulp: "0 < ulp" by (simp add: ulp_def)
  have t: "0 \<le> k - e + 52" using ek by simp
  have "x / ulp < 2 powi k / ulp" using assms(2) ulp by (simp add: divide_strict_right_mono)
  also have "2 powi k / ulp = 2 powi (k - (e - 52))"
    by (simp add: ulp_def power_int_diff)
  also have "\<dots> = of_int (2 ^ nat (k - e + 52))"
    using t by (simp add: power_int_def algebra_simps)
  finally have "x / ulp \<le> of_int (2 ^ nat (k - e + 52))" by simp
  then have "n \<le> 2 ^ nat (k - e + 52)" unfolding n_def by (rule roundHalfEven_le_int)
  then have "(of_int n :: rat) \<le> of_int (2 ^ nat (k - e + 52))" by (simp only: of_int_le_iff)
  also have "(of_int (2 ^ nat (k - e + 52)) :: rat) = 2 powi (k - (e - 52))"
    using t by (simp add: power_int_def algebra_simps)
  finally have "of_int n * ulp \<le> 2 powi (k - (e - 52)) * ulp"
    using ulp by (simp add: mult_right_mono)
  also have "2 powi (k - (e - 52)) * ulp = 2 powi k"
    by (simp add: ulp_def power_int_diff)
  finally have le: "of_int n * ulp \<le> 2 powi k" .
  have "0 \<le> x / ulp" using assms(1) ulp by simp
  then have "0 \<le> n" unfolding n_def by (rule roundHalfEven_nonneg)
  then have ge: "0 \<le> of_int n * ulp" using ulp by simp
  have "of_int n * ulp < overflowThreshold" by (rule below_overflow [OF le assms(4)])
  then have "roundPos x = Num (of_int n * ulp)"
    by (intro roundPos_NumI) (simp_all add: ulpOf n_def)
  with le ge show ?thesis by blast
qed

lemma double_below_one:
  assumes "isDouble r" "1 / 2 \<le> r" "r < 1"
  shows "r \<le> 1 - 1 / 2 ^ 53"
proof -
  have pos: "0 < r" using assms(2) by simp
  have b: "binade r = - 1"
    by (rule binade_eqI [OF pos]) (use assms in simp_all)
  define n where "n = roundHalfEven (r / 2 powi (- 53))"
  from assms(1) pos have "roundPos r = Num r"
    by (simp add: isDouble_def roundToDouble_def)
  then have "r = of_int (roundHalfEven (r / ulpOf r)) * ulpOf r" by (rule roundPos_NumD)
  moreover have u: "ulpOf r = 2 powi (- 53)"
    using ulpOf_eq [OF b] by simp
  ultimately have "r = of_int n * 2 powi (- 53)"
    by (simp only: u n_def)
  then have r: "r = of_int n / 2 ^ 53"
    by (simp add: field_simps)
  with assms(3) have "(of_int n :: rat) < of_int (2 ^ 53)" by (simp add: field_simps)
  then have "n < 2 ^ 53" by (simp only: of_int_less_iff)
  then have "n \<le> 2 ^ 53 - 1" by simp
  then have "(of_int n :: rat) \<le> of_int (2 ^ 53 - 1)" by (simp only: of_int_le_iff)
  then show ?thesis unfolding r by (simp add: field_simps)
qed

lemma draw_times_36:
  assumes "isDouble r" "0 \<le> r" "r < 1"
  shows "\<exists>y. roundToDouble (r * 36) = Num y \<and> 0 \<le> y \<and> y < 36"
proof (cases "r = 0")
  case True
  then show ?thesis by (simp add: roundToDouble_def)
next
  case False
  with assms(2) have pos: "0 < r * 36" by simp
  show ?thesis
  proof (cases "r * 36 < 32")
    case True
    have "\<exists>y. roundPos (r * 36) = Num y \<and> 0 \<le> y \<and> y \<le> 2 powi 5"
      by (rule roundPos_upper [OF pos]) (use True in simp_all)
    then show ?thesis using pos by (auto simp: roundToDouble_def)
  next
    case False
    then have ge: "32 \<le> r * 36" by simp
    then have "1 / 2 \<le> r" by simp
    from double_below_one [OF assms(1) this assms(3)]
    have up: "r * 36 \<le> 36 - 36 / 2 ^ 53" by simp
    have b: "binade (r * 36) = 5"
      by (rule binade_eqI [OF pos]) (use ge assms(3) in simp_all)
    define n where "n = roundHalfEven (r * 36 / 2 powi (- 47))"
    have "of_int n \<le> r * 36 / 2 powi (- 47) + 1 / 2"
      unfolding n_def by (rule roundHalfEven_upper)
    also have "r * 36 / 2 powi (- 47) = r * 36 * 2 ^ 47"
      by (simp add: field_simps)
    also have "r * 36 * 2 ^ 47 \<le> (36 - 36 / 2 ^ 53) * 2 ^ 47"
      using up by (simp only: mult_right_mono zero_le_numeral zero_le_power)
    finally have "of_int n < (36::rat) * 2 ^ 47" by simp
    then have lt: "of_int n * 2 powi (- 47) < (36::rat)"
      by (simp add: field_simps)
    have "0 \<le> r * 36 / 2 powi (- 47)" using pos by simp
    then have "0 \<le> n" unfolding n_def by (rule roundHalfEven_nonneg)
    then have nn: "0 \<le> of_int n * (2::rat) powi (- 47)" by simp
    have "of_int n * (2::rat) powi (- 47) \<le> 2 powi 6" using lt by simp
    then have "of_int n * (2::rat) powi (- 47) < overflowThreshold"
      by (rule below_overflow) simp
    moreover have u: "ulpOf (r * 36) = 2 powi (- 47)"
      using ulpOf_eq [OF b] by simp
    ultimately have "roundPos (r * 36) = Num (of_int n * 2 powi (- 47))"
      by (intro roundPos_NumI) (simp_all only: u n_def)
    then have "roundToDouble (r * 36) = Num (of_int n * 2 powi (- 47))"
      using pos by (simp only: roundToDouble_def) simp
    with lt nn show ?thesis by blast
  qed
qed

text \<open>A positive integer below \<open>2 ^ 53\<close>, divided by a power of two within the exponent
  range, is a double: rounding leaves it alone.\<close>

lemma roundToDouble_dyadic:
  assumes "0 < m" "m < 2 ^ 53" "j \<le> 1074"
  shows "roundToDouble (of_int m / 2 ^ j) = Num (of_int m / 2 ^ j)"
proof -
  define x :: rat where "x = of_int m / 2 ^ j"
  define e where "e = max (binade x) (- 1022)"
  define t where "t = 52 - e - int j"
  have pos: "0 < x" using assms(1) by (simp add: x_def)
  have xp: "x = of_int m * 2 powi (- int j)"
    by (simp add: x_def power_int_minus field_simps)
  define p :: rat where "p = 2 powi 53"
  have "(of_int m :: rat) < of_int (2 ^ 53)" using assms(2) by (simp only: of_int_less_iff)
  then have m53: "(of_int m :: rat) < p" by (simp add: p_def)
  have t: "0 \<le> t"
  proof (cases "- 1022 \<le> binade x")
    case True
    then have e: "e = binade x" by (simp add: e_def)
    have "2 powi e \<le> x" using binade_bounds [OF pos] e by simp
    also have "x < p * 2 powi (- int j)"
      unfolding xp using m53 by (intro mult_strict_right_mono) simp_all
    also have "p * 2 powi (- int j) = 2 powi (53 + (- int j))"
      unfolding p_def by (rule power_int_add [symmetric]) simp
    finally have "(2::rat) powi e < 2 powi (53 - int j)" by simp
    then have "e < 53 - int j"
      by (metis less_irrefl not_less power_int_increasing one_le_numeral order.strict_trans1)
    then show ?thesis by (simp add: t_def)
  next
    case False
    then have "e = - 1022" by (simp add: e_def)
    with assms(3) show ?thesis by (simp add: t_def)
  qed
  have ulp: "ulpOf x = 2 powi (e - 52)" by (simp add: ulpOf_def e_def)
  have "x / ulpOf x = x / 2 powi (e - 52)" by (simp only: ulp)
  also have "\<dots> = of_int m * (2 powi (- int j) / 2 powi (e - 52))"
    by (simp add: xp)
  also have "2 powi (- int j) / (2::rat) powi (e - 52) = 2 powi t"
    by (simp add: power_int_diff [symmetric] t_def algebra_simps)
  also have "(2::rat) powi t = of_int (2 ^ nat t)" using t by (simp add: power_int_def)
  finally have q: "x / ulpOf x = of_int (m * 2 ^ nat t)" by simp
  have "of_int (roundHalfEven (x / ulpOf x)) * ulpOf x = x / ulpOf x * ulpOf x"
    by (simp only: q roundHalfEven_of_int)
  also have "\<dots> = x" by (simp add: ulp)
  finally have y: "of_int (roundHalfEven (x / ulpOf x)) * ulpOf x = x" .
  have "x \<le> of_int m" using assms(1) by (simp add: x_def field_simps mult_le_cancel_left1)
  with m53 have "x \<le> 2 powi 53" unfolding p_def by linarith
  then have "x < overflowThreshold" by (rule below_overflow) simp
  with y have "roundPos x = Num x" by (rule roundPos_NumI)
  with pos show ?thesis by (simp add: roundToDouble_def x_def)
qed

lemma roundToDouble_int:
  assumes "0 \<le> m" "m < 2 ^ 53"
  shows "roundToDouble (of_int m) = Num (of_int m)"
proof (cases "m = 0")
  case True
  then show ?thesis by (simp add: roundToDouble_def)
next
  case False
  with assms roundToDouble_dyadic [of m 0] show ?thesis by simp
qed

section \<open>The invite-code generator\<close>

lemma length_chars: "length chars = 36"
  by (simp add: chars_def)

lemma truncateMs_of_int: "truncateMs (of_int n) = n"
  by (simp add: truncateMs_def)

lemma truncateMs_of_nat: "truncateMs (of_nat n) = int n"
  by (simp add: truncateMs_def)

lemma upt_0_8: "[0..<8] = [0, 1, 2, 3, 4, 5, 6, 7]"
  by (simp add: upt_rec)

text \<open>A draw that is a double in \<open>[0, 1)\<close> selects a symbol of the alphabet: the rounded
  product with 36 stays below 36.\<close>

lemma drawChar_symbol:
  assumes "isDouble (rnd i)" "0 \<le> rnd i" "rnd i < 1"
  shows "\<exists>c \<in> set chars. drawChar rnd i = [c]"
proof -
  from draw_times_36 [OF assms] obtain y where
    y: "roundToDouble (rnd i * 36) = Num y" "0 \<le> y" "y < 36" by blast
  have f: "0 \<le> \<lfloor>y\<rfloor>" "\<lfloor>y\<rfloor> < 36" using y(2,3) by (simp_all add: floor_less_iff)
  then have "nat \<lfloor>y\<rfloor> < length chars" unfolding length_chars by linarith
  then have "chars ! nat \<lfloor>y\<rfloor> \<in> set chars" by (rule nth_mem)
  moreover have "drawChar rnd i = [chars ! nat \<lfloor>y\<rfloor>]"
    using y(1) f
    by (simp add: drawChar_def length_chars mathFloor_def charAt_def truncateMs_of_int)
  ultimately show ?thesis by blast
qed

text \<open>The loop invariant: from round \<open>i\<close> on, each round appends one symbol of the
  alphabet.\<close>

lemma generateLoop_shape:
  "(\<And>j. i \<le> j \<Longrightarrow> j < 8 \<Longrightarrow>
      isDouble (rnd (k + j)) \<and> 0 \<le> rnd (k + j) \<and> rnd (k + j) < 1) \<Longrightarrow>
   length (generateLoop rnd k i result) = length result + (8 - i) \<and>
   set (generateLoop rnd k i result) \<subseteq> set result \<union> set chars"
proof (induction rnd k i result rule: generateLoop.induct)
  case (1 rnd k i result)
  show ?case
  proof (cases "i < 8")
    case True
    from "1.prems" [of i] True
    have d: "isDouble (rnd (k + i))" "0 \<le> rnd (k + i)" "rnd (k + i) < 1" by simp_all
    from drawChar_symbol [of rnd "k + i", OF d] obtain c where c: "c \<in> set chars"
      "drawChar rnd (k + i) = [c]" by blast
    have ih: "length (generateLoop rnd k (i + 1) (result @ [c])) =
                length (result @ [c]) + (8 - (i + 1)) \<and>
              set (generateLoop rnd k (i + 1) (result @ [c])) \<subseteq> set (result @ [c]) \<union> set chars"
      using "1.IH" [OF True] "1.prems" c(2) by simp
    have unf: "generateLoop rnd k i result = generateLoop rnd k (i + 1) (result @ [c])"
      using True c(2) by (subst generateLoop.simps) simp
    show ?thesis using ih c(1) True unfolding unf by auto
  next
    case False
    then show ?thesis by (subst (1 2) generateLoop.simps) simp
  qed
qed

lemma chars_codes:
  "c \<in> set chars \<Longrightarrow>
     (97 \<le> (of_char c :: nat) \<and> (of_char c :: nat) \<le> 122) \<or>
     (48 \<le> (of_char c :: nat) \<and> (of_char c :: nat) \<le> 57)"
  unfolding chars_def by auto

text \<open>The eight rounds, written out.\<close>

lemma generateLoop_rounds:
  "i \<le> 8 \<Longrightarrow>
     generateLoop rnd k i result = result @ concat (map (\<lambda>j. drawChar rnd (k + j)) [i..<8])"
proof (induction rnd k i result rule: generateLoop.induct)
  case (1 rnd k i result)
  show ?case
  proof (cases "i < 8")
    case True
    then have "generateLoop rnd k i result =
                 generateLoop rnd k (i + 1) (result @ drawChar rnd (k + i))"
      by (subst generateLoop.simps) simp
    also have "\<dots> = (result @ drawChar rnd (k + i)) @
                 concat (map (\<lambda>j. drawChar rnd (k + j)) [i + 1..<8])"
      using "1.IH" [OF True] True by simp
    also have "\<dots> = result @ concat (map (\<lambda>j. drawChar rnd (k + j)) [i..<8])"
      using True by (simp add: upt_conv_Cons)
    finally show ?thesis .
  next
    case False
    with "1.prems" have "i = 8" by simp
    then show ?thesis by (subst generateLoop.simps) simp
  qed
qed

lemma generateInviteCode_rounds:
  "generateInviteCode rnd k = concat (map (\<lambda>j. drawChar rnd (k + j)) [0..<8])"
  by (simp add: generateInviteCode_def generateLoop_rounds)

text \<open>The concrete draws: 0 selects \<open>a\<close>, and \<open>drawFor d\<close> is a double in \<open>[0, 1)\<close> that
  selects the symbol at index \<open>d\<close>.\<close>

lemma drawChar_zero: "rnd i = 0 \<Longrightarrow> drawChar rnd i = ''a''"
  by (simp add: drawChar_def roundToDouble_def mathFloor_def charAt_def truncateMs_def chars_def)

lemma drawFor_double:
  assumes "d < 36"
  shows "isDouble (drawFor d)" "0 \<le> drawFor d" "drawFor d < 1"
proof -
  have "roundToDouble (of_int (int (57 * d + 1)) / 2 ^ 11) = Num (of_int (int (57 * d + 1)) / 2 ^ 11)"
    by (rule roundToDouble_dyadic) (use assms in simp_all)
  then show "isDouble (drawFor d)" by (simp add: isDouble_def drawFor_def)
  show "0 \<le> drawFor d" by (simp add: drawFor_def)
  have "57 * d + 1 < 2048" using assms by simp
  then have "(of_nat (57 * d + 1) :: rat) < of_nat 2048" by (simp only: of_nat_less_iff)
  then show "drawFor d < 1" by (simp add: drawFor_def)
qed

lemma drawChar_drawFor:
  assumes "rnd i = drawFor d" "d < 36"
  shows "drawChar rnd i = [chars ! d]"
proof -
  define m where "m = int (513 * d + 9)"
  have m: "0 < m" "m < 2 ^ 53" using assms(2) by (simp_all add: m_def)
  have p: "drawFor d * 36 = of_int m / 2 ^ 9"
    by (simp add: drawFor_def m_def field_simps)
  have "roundToDouble (of_int m / 2 ^ 9) = Num (of_int m / 2 ^ 9)"
    by (rule roundToDouble_dyadic [OF m]) simp
  then have r: "roundToDouble (drawFor d * 36) = Num (of_int m / of_int 512)"
    by (simp add: p)
  have "m div 512 = int d" using assms(2) by (simp add: m_def)
  then have fl: "\<lfloor>(of_int m :: rat) / of_int 512\<rfloor> = int d"
    by (simp only: floor_divide_of_int_eq)
  have "jsMul (Num (rnd i)) (Num (of_nat (length chars))) = Num (of_int m / of_int 512)"
    using r by (simp add: assms(1) length_chars)
  then have "mathFloor (jsMul (Num (rnd i)) (Num (of_nat (length chars)))) = Num (of_int (int d))"
    by (simp only: mathFloor_def number.case fl)
  then show ?thesis
    using assms(2)
    by (simp add: drawChar_def charAt_def truncateMs_of_nat length_chars Let_def)
qed

lemma gen_zero: "generateInviteCode zeroDraws k = ''aaaaaaaa''"
  by (simp add: generateInviteCode_rounds drawChar_zero zeroDraws_def upt_0_8)

lemma gen_step0: "generateInviteCode stepDraws 0 = ''aaaaaaaa''"
  by (simp add: generateInviteCode_rounds drawChar_zero stepDraws_def upt_0_8)

lemma gen_step8: "generateInviteCode stepDraws 8 = ''bbbbbbbb''"
  by (simp add: generateInviteCode_rounds drawChar_drawFor [where d = 1] stepDraws_def
        upt_0_8 chars_def)

text \<open>The rounding shows: for the draw \<open>0.6666666666666666\<close> the exact product with 36
  lies below 24, the product of the two Numbers is 24, and the symbol is \<open>y\<close>.\<close>

lemma drawChar_rounds_up:
  assumes "rnd i = 6004799503160661 / 9007199254740992"
  shows "rnd i * 36 < 24 \<and> drawChar rnd i = ''y''"
proof -
  let ?x = "6004799503160661 / 9007199254740992 * (36::rat)"
  have b: "binade ?x = 4"
    by (rule binade_eqI) simp_all
  have u: "ulpOf ?x = 2 powi (- 48)"
    using ulpOf_eq [OF b] by simp
  have q: "?x / 2 powi (- 48) = 54043195528445949 / 8" by simp
  have fl: "\<lfloor>(54043195528445949::rat) / 8\<rfloor> = 6755399441055743"
    by (simp add: floor_eq_iff)
  have n: "roundHalfEven (54043195528445949 / 8) = 6755399441055744"
    by (simp add: roundHalfEven_def Let_def fl)
  have y: "of_int (roundHalfEven (?x / ulpOf ?x)) * ulpOf ?x = 24"
    by (simp only: u q n) simp
  have "(24::rat) \<le> 2 powi 5" by simp
  then have "(24::rat) < overflowThreshold" by (rule below_overflow) simp
  with y have "roundPos ?x = Num 24" by (rule roundPos_NumI)
  then have "roundToDouble (rnd i * 36) = Num 24"
    by (simp add: assms roundToDouble_def)
  then have "drawChar rnd i = ''y''"
    by (simp add: drawChar_def length_chars mathFloor_def charAt_def truncateMs_def chars_def)
  moreover have "rnd i * 36 < 24" by (simp add: assms)
  ultimately show ?thesis by blast
qed

text \<open>
  Claim C9. Whenever the eight values that \<open>Math.random()\<close> returns are Numbers in
  \<open>[0, 1)\<close>, the string \<open>generateInviteCode\<close> returns has length exactly 8, and each of
  its characters is one of the 36 symbols of \<open>chars\<close>, that is, a lowercase letter
  \<open>a\<close> to \<open>z\<close> (character codes 97 to 122) or a digit \<open>0\<close> to \<open>9\<close> (codes 48 to 57).
\<close>

theorem generateInviteCode_shape:
  assumes "\<forall>i<8. isDouble (rnd (k + i)) \<and> 0 \<le> rnd (k + i) \<and> rnd (k + i) < 1"
  shows "length (generateInviteCode rnd k) = 8 \<and>
         length chars = 36 \<and> distinct chars \<and>
         (\<forall>c \<in> set (generateInviteCode rnd k).
            c \<in> set chars \<and>
            ((97 \<le> (of_char c :: nat) \<and> (of_char c :: nat) \<le> 122) \<or>
             (48 \<le> (of_char c :: nat) \<and> (of_char c :: nat) \<le> 57)))"
proof -
  have shape: "length (generateInviteCode rnd k) = 8 \<and>
               set (generateInviteCode rnd k) \<subseteq> set chars"
    using generateLoop_shape [of 0 rnd k "[]"] assms
    unfolding generateInviteCode_def by auto
  have "distinct chars" by (simp add: chars_def)
  with shape length_chars chars_codes show ?thesis by blast
qed

theorem generateInviteCode_shape_witness:
  "generateInviteCode stepDraws 8 = ''bbbbbbbb'' \<and>
   length (generateInviteCode stepDraws 8) = 8 \<and>
   set (generateInviteCode stepDraws 8) \<subseteq> set chars"
proof -
  have h: "\<forall>i<8. isDouble (stepDraws (8 + i)) \<and> 0 \<le> stepDraws (8 + i) \<and> stepDraws (8 + i) < 1"
    using drawFor_double [of 1] by (simp add: stepDraws_def)
  from generateInviteCode_shape [OF h] gen_step8 show ?thesis by blast
qed

section \<open>The allocation loop\<close>

text \<open>Partial correctness, by the induction rule of the loop: a code it returns was
  drawn in some round and was found free by that round's lookup.\<close>

lemma allocate_sound:
  assumes "allocateInviteCode rnd s k = Some c"
  shows "findGroupByCode s c = None \<and> (\<exists>n. c = generateInviteCode rnd (k + 8 * n))"
proof (rule allocateInviteCode.raw_induct
    [where P = "\<lambda>rnd s k c. findGroupByCode s c = None \<and>
                  (\<exists>n. c = generateInviteCode rnd (k + 8 * n))", OF _ assms])
  fix alloc :: "(nat \<Rightarrow> rat) \<Rightarrow> store \<Rightarrow> nat \<Rightarrow> string option"
  fix rnd s k c
  assume IH: "\<And>rnd s k c. alloc rnd s k = Some c \<Longrightarrow>
      findGroupByCode s c = None \<and> (\<exists>n. c = generateInviteCode rnd (k + 8 * n))"
  assume step: "(let inviteCode = generateInviteCode rnd k
      in if findGroupByCode s inviteCode = None then Some inviteCode
         else alloc rnd s (k + 8)) = Some c"
  show "findGroupByCode s c = None \<and> (\<exists>n. c = generateInviteCode rnd (k + 8 * n))"
  proof (cases "findGroupByCode s (generateInviteCode rnd k) = None")
    case True
    with step have "c = generateInviteCode rnd k" by (simp add: Let_def)
    with True show ?thesis by (intro conjI exI [of _ 0]) simp_all
  next
    case False
    with step have "alloc rnd s (k + 8) = Some c" by (simp add: Let_def)
    from IH [OF this] obtain n where
      "findGroupByCode s c = None" "c = generateInviteCode rnd (k + 8 + 8 * n)" by blast
    then have "c = generateInviteCode rnd (k + 8 * Suc n)" by (simp add: add.assoc)
    with \<open>findGroupByCode s c = None\<close> show ?thesis by blast
  qed
qed

text \<open>The loop returns the code of the first round whose draw is free, after as many
  rounds as that takes.\<close>

lemma allocate_first_free:
  "(\<And>m. m < n \<Longrightarrow> findGroupByCode s (generateInviteCode rnd (k + 8 * m)) \<noteq> None) \<Longrightarrow>
   findGroupByCode s (generateInviteCode rnd (k + 8 * n)) = None \<Longrightarrow>
   allocateInviteCode rnd s k = Some (generateInviteCode rnd (k + 8 * n))"
proof (induction n arbitrary: k)
  case 0
  then show ?case by (subst allocateInviteCode.simps) (simp add: Let_def)
next
  case (Suc n)
  have taken: "findGroupByCode s (generateInviteCode rnd k) \<noteq> None"
    using Suc.prems(1) [of 0] by simp
  have later: "findGroupByCode s (generateInviteCode rnd (k + 8 + 8 * m)) \<noteq> None"
    if "m < n" for m
    using Suc.prems(1) [of "Suc m"] that by (simp add: add.assoc)
  have free: "findGroupByCode s (generateInviteCode rnd (k + 8 + 8 * n)) = None"
    using Suc.prems(2) by (simp add: add.assoc)
  have "allocateInviteCode rnd s (k + 8) = Some (generateInviteCode rnd (k + 8 + 8 * n))"
    using Suc.IH [of "k + 8"] later free by blast
  then have "allocateInviteCode rnd s k = Some (generateInviteCode rnd (k + 8 + 8 * n))"
    using taken by (subst allocateInviteCode.simps) (auto simp add: Let_def)
  then show ?case by (simp add: add.assoc)
qed

lemma allocate_returns:
  assumes "findGroupByCode s (generateInviteCode rnd (k + 8 * n)) = None"
  shows "\<exists>c. allocateInviteCode rnd s k = Some c"
proof -
  define P where "P = (\<lambda>m. findGroupByCode s (generateInviteCode rnd (k + 8 * m)) = None)"
  have "P n" using assms by (simp add: P_def)
  then have least: "P (LEAST m. P m)" by (rule LeastI)
  have below: "\<not> P m" if "m < (LEAST m. P m)" for m
    using that by (rule not_less_Least)
  have "allocateInviteCode rnd s k = Some (generateInviteCode rnd (k + 8 * (LEAST m. P m)))"
    by (rule allocate_first_free) (use least below in \<open>simp_all add: P_def\<close>)
  then show ?thesis by blast
qed

lemma allocate_diverges:
  assumes "\<forall>n. findGroupByCode s (generateInviteCode rnd (k + 8 * n)) \<noteq> None"
  shows "allocateInviteCode rnd s k = None"
proof (cases "allocateInviteCode rnd s k")
  case None
  then show ?thesis .
next
  case (Some c)
  from allocate_sound [OF this] assms show ?thesis by metis
qed

lemma allocate_step_taken:
  "allocateInviteCode stepDraws takenStore 0 = Some ''bbbbbbbb''"
proof -
  have "allocateInviteCode stepDraws takenStore 0 = Some (generateInviteCode stepDraws (0 + 8 * 1))"
    by (rule allocate_first_free)
       (simp_all add: gen_step0 gen_step8 findGroupByCode_def takenStore_def)
  then show ?thesis by (simp add: gen_step8)
qed










section \<open>Identity resolution\<close>

lemma find_snoc:
  "find P (xs @ [x]) =
     (case find P xs of Some y \<Rightarrow> Some y | None \<Rightarrow> if P x then Some x else None)"
  by (induction xs) auto

lemma ensureUser_tables:
  "groups (snd (ensureUser s tok)) = groups s"
  "groupMembers (snd (ensureUser s tok)) = groupMembers s"
  by (simp_all add: ensureUser_def createUser_def Let_def split: option.splits)

lemma ensureUser_lookups:
  "findGroupByCode (snd (ensureUser s tok)) code = findGroupByCode s code"
  "findMembership (snd (ensureUser s tok)) uid gid = findMembership s uid gid"
  "membersOf (snd (ensureUser s tok)) gid = membersOf s gid"
  by (simp_all add: findGroupByCode_def findMembership_def membersOf_def ensureUser_tables)

lemma ensureUser_known:
  "findUserByToken s tok = Some u \<Longrightarrow> ensureUser s tok = (u, s)"
  by (simp add: ensureUser_def)

lemma ensureUser_unseen:
  "findUserByToken s tok = None \<Longrightarrow>
     ensureUser s tok =
       (\<lparr>u_id = nextId s, u_deviceToken = tok, u_name = None\<rparr>,
        s\<lparr>users := users s @ [\<lparr>u_id = nextId s, u_deviceToken = tok, u_name = None\<rparr>],
          nextId := nextId s + 1\<rparr>)"
  by (simp add: ensureUser_def createUser_def Let_def)

text \<open>After the call the token resolves to the user the call returned.\<close>

lemma ensureUser_resolves:
  "findUserByToken (snd (ensureUser s tok)) tok = Some (fst (ensureUser s tok))"
proof (cases "findUserByToken s tok")
  case None
  then have "find (\<lambda>u. u_deviceToken u = tok) (users s) = None"
    by (simp add: findUserByToken_def)
  then have "find (\<lambda>u. u_deviceToken u = tok)
               (users s @ [\<lparr>u_id = nextId s, u_deviceToken = tok, u_name = None\<rparr>]) =
             Some \<lparr>u_id = nextId s, u_deviceToken = tok, u_name = None\<rparr>"
    by (simp add: find_snoc)
  with None show ?thesis
    by (simp add: ensureUser_unseen findUserByToken_def)
next
  case (Some u)
  then show ?thesis by (simp add: ensureUser_known)
qed

lemma ensureUser_again:
  "ensureUser (snd (ensureUser s tok)) tok = ensureUser s tok"
  using ensureUser_resolves [of s tok]
  by (simp add: ensureUser_known)

lemma ensureUser_consistent:
  "storeConsistent s \<Longrightarrow> storeConsistent (snd (ensureUser s tok))"
  by (cases "findUserByToken s tok")
     (auto simp: storeConsistent_def ensureUser_known ensureUser_unseen less_Suc_eq)

section \<open>Joining a group\<close>

text \<open>The handler, branch by branch, for a request that carries a device token.\<close>

lemma joinGroup_missing:
  "\<not> truthyString (j_deviceToken body) \<Longrightarrow>
     joinGroup code body now s = (errorResponse ''deviceToken is required'' 400, s)"
  by (simp add: joinGroup_def)

lemma joinGroup_not_found:
  assumes "j_deviceToken body = Some tok" "tok \<noteq> []" "findGroupByCode s code = None"
  shows "joinGroup code body now s =
           (errorResponse ''Group not found'' 404, snd (ensureUser s tok))"
  using assms ensureUser_lookups(1) [of s tok code]
  by (simp add: joinGroup_def truthyString_def split_beta Let_def)

lemma joinGroup_expired:
  assumes "j_deviceToken body = Some tok" "tok \<noteq> []" "findGroupByCode s code = Some g"
    "isGroupExpired (g_expiresAt g) now"
  shows "joinGroup code body now s =
           (errorResponse ''Group invitation has expired'' 410, snd (ensureUser s tok))"
  using assms ensureUser_lookups(1) [of s tok code]
  by (simp add: joinGroup_def truthyString_def split_beta Let_def)

lemma joinGroup_already_member:
  assumes "j_deviceToken body = Some tok" "tok \<noteq> []" "findGroupByCode s code = Some g"
    "\<not> isGroupExpired (g_expiresAt g) now"
    "findMembership s (u_id (fst (ensureUser s tok))) (g_id g) = Some m"
  shows "joinGroup code body now s =
           (errorResponse ''User is already a member of this group'' 400,
            snd (ensureUser s tok))"
  using assms ensureUser_lookups(1) [of s tok code]
    ensureUser_lookups(2) [of s tok "u_id (fst (ensureUser s tok))" "g_id g"]
  by (simp add: joinGroup_def truthyString_def split_beta Let_def)

lemma joinGroup_joined:
  assumes "j_deviceToken body = Some tok" "tok \<noteq> []" "findGroupByCode s code = Some g"
    "\<not> isGroupExpired (g_expiresAt g) now"
    "findMembership s (u_id (fst (ensureUser s tok))) (g_id g) = None"
  shows "joinGroup code body now s =
           (jsonResponse
              (JoinGroupBody
                 \<lparr>jr_success = True, jr_groupId = g_id g, jr_modelId = g_modelId g,
                  jr_title = g_title g, jr_description = g_description g,
                  jr_memberCount = length (membersOf s (g_id g)) + 1,
                  jr_message = ''Successfully joined the group''\<rparr>)
              200,
            createGroupMember (snd (ensureUser s tok)) (u_id (fst (ensureUser s tok))) (g_id g))"
  using assms ensureUser_lookups(1) [of s tok code]
    ensureUser_lookups(2) [of s tok "u_id (fst (ensureUser s tok))" "g_id g"]
    ensureUser_lookups(3) [of s tok "g_id g"]
  by (simp add: joinGroup_def truthyString_def split_beta Let_def)

lemma joinGroup_cases [case_names Missing NotFound Expired Member Joined]:
  obtains
    "\<not> truthyString (j_deviceToken body)"
  | tok where "j_deviceToken body = Some tok" "tok \<noteq> []" "findGroupByCode s code = None"
  | tok g where "j_deviceToken body = Some tok" "tok \<noteq> []" "findGroupByCode s code = Some g"
      "isGroupExpired (g_expiresAt g) now"
  | tok g m where "j_deviceToken body = Some tok" "tok \<noteq> []" "findGroupByCode s code = Some g"
      "\<not> isGroupExpired (g_expiresAt g) now"
      "findMembership s (u_id (fst (ensureUser s tok))) (g_id g) = Some m"
  | tok g where "j_deviceToken body = Some tok" "tok \<noteq> []" "findGroupByCode s code = Some g"
      "\<not> isGroupExpired (g_expiresAt g) now"
      "findMembership s (u_id (fst (ensureUser s tok))) (g_id g) = None"
proof (cases "truthyString (j_deviceToken body)")
  case False
  then show ?thesis using that(1) by blast
next
  case True
  then obtain tok where tok: "j_deviceToken body = Some tok" "tok \<noteq> []"
    by (auto simp: truthyString_def split: option.splits)
  show ?thesis
  proof (cases "findGroupByCode s code")
    case None
    with tok show ?thesis using that(2) by blast
  next
    case (Some g)
    show ?thesis
    proof (cases "isGroupExpired (g_expiresAt g) now")
      case True
      with tok Some show ?thesis using that(3) by blast
    next
      case False
      with tok Some show ?thesis
        using that(4) [of tok g] that(5) [of tok g]
        by (cases "findMembership s (u_id (fst (ensureUser s tok))) (g_id g)") blast+
    qed
  qed
qed

lemma status_simps [simp]:
  "status (errorResponse msg st) = st"
  "status (jsonResponse b st) = st"
  "status (htmlResponse p) = 200"
  "content (errorResponse msg st) = ErrorBody msg"
  "content (jsonResponse b st) = b"
  "content (htmlResponse p) = HtmlBody p"
  by (simp_all add: errorResponse_def jsonResponse_def htmlResponse_def)

lemma createGroupMember_tables:
  "users (createGroupMember s uid gid) = users s"
  "groups (createGroupMember s uid gid) = groups s"
  "groupMembers (createGroupMember s uid gid) =
     groupMembers s @ [\<lparr>m_id = nextId s, m_userId = uid, m_groupId = gid\<rparr>]"
  by (simp_all add: createGroupMember_def)

lemma membersOf_createGroupMember:
  "membersOf (createGroupMember s uid gid) gid' =
     (if gid' = gid
      then membersOf s gid' @ [\<lparr>m_id = nextId s, m_userId = uid, m_groupId = gid\<rparr>]
      else membersOf s gid')"
  by (simp add: membersOf_def createGroupMember_tables)

lemma taken_lookups:
  "findGroupByCode takenStore ''aaaaaaaa'' =
     Some \<lparr>g_id = 1, g_inviteCode = ''aaaaaaaa'', g_modelId = ''m1'', g_creatorId = 0,
           g_title = None, g_description = None, g_expiresAt = Some 5000\<rparr>"
  "findGroupByCode takenStore ''zzzzzzzz'' = None"
  "findUserByToken takenStore ''dev-a'' =
     Some \<lparr>u_id = 0, u_deviceToken = ''dev-a'', u_name = None\<rparr>"
  "findUserByToken takenStore ''dev-b'' = None"
  by (simp_all add: findGroupByCode_def findUserByToken_def takenStore_def)

subsection \<open>The expiry rule\<close>

lemma isGroupExpired_iff:
  "isGroupExpired e now \<longleftrightarrow> (\<exists>t. e = Some t \<and> t < now)"
  by (cases e) (simp_all add: isGroupExpired_def)

lemma getGroupDetails_status:
  "findGroupByCode s code = Some g \<Longrightarrow>
     status (getGroupDetails code now s) = (if isGroupExpired (g_expiresAt g) now then 410 else 200)"
  by (simp add: getGroupDetails_def)

lemma groupLandingPage_expired:
  "findGroupByCode s code = Some g \<Longrightarrow>
     (content (groupLandingPage code now s) = HtmlBody InvitationExpiredPage) =
       isGroupExpired (g_expiresAt g) now"
  by (simp add: groupLandingPage_def)

lemma joinGroup_status_410:
  assumes "truthyString (j_deviceToken body)" "findGroupByCode s code = Some g"
  shows "(status (fst (joinGroup code body now s)) = 410) = isGroupExpired (g_expiresAt g) now"
proof (cases rule: joinGroup_cases [where body = body and s = s and code = code and now = now])
  case Missing
  with assms show ?thesis by simp
next
  case (NotFound tok)
  with assms show ?thesis by simp
next
  case (Expired tok g')
  with assms joinGroup_expired [OF Expired] show ?thesis by simp
next
  case (Member tok g' m)
  with assms joinGroup_already_member [OF Member] show ?thesis by simp
next
  case (Joined tok g')
  with assms joinGroup_joined [OF Joined] show ?thesis by simp
qed

text \<open>
  Claim C1. For every group and every evaluation time, the expiry check judges the
  group expired if and only if its \<open>expiresAt\<close> is set and strictly less than the
  current time; a group whose \<open>expiresAt\<close> is unset is never judged expired. The
  get-details route answers 410, the landing route answers with its expired page, and
  the join route (for a request with a device token) answers 410, exactly when the
  group found under the invite code is expired by that check.
\<close>

theorem expiry_rule:
  "(isGroupExpired (g_expiresAt g) now \<longleftrightarrow> (\<exists>t. g_expiresAt g = Some t \<and> t < now)) \<and>
   (g_expiresAt g = None \<longrightarrow> \<not> isGroupExpired (g_expiresAt g) now) \<and>
   (findGroupByCode s code = Some g \<longrightarrow>
      (status (getGroupDetails code now s) = 410 \<longleftrightarrow> isGroupExpired (g_expiresAt g) now) \<and>
      (content (groupLandingPage code now s) = HtmlBody InvitationExpiredPage \<longleftrightarrow>
         isGroupExpired (g_expiresAt g) now) \<and>
      (truthyString (j_deviceToken body) \<longrightarrow>
         (status (fst (joinGroup code body now s)) = 410 \<longleftrightarrow>
            isGroupExpired (g_expiresAt g) now)))"
  using isGroupExpired_iff [of "g_expiresAt g" now]
    getGroupDetails_status [of s code g now]
    groupLandingPage_expired [of s code g now]
    joinGroup_status_410 [of body s code g now]
  by auto

theorem expiry_rule_witness:
  "status (getGroupDetails ''aaaaaaaa'' 5001 takenStore) = 410 \<and>
   status (getGroupDetails ''aaaaaaaa'' 5000 takenStore) \<noteq> 410 \<and>
   content (groupLandingPage ''aaaaaaaa'' 5001 takenStore) = HtmlBody InvitationExpiredPage \<and>
   status (fst (joinGroup ''aaaaaaaa'' \<lparr>j_deviceToken = Some ''dev-b''\<rparr> 5001 takenStore)) = 410 \<and>
   status (fst (joinGroup ''aaaaaaaa'' \<lparr>j_deviceToken = Some ''dev-b''\<rparr> 5000 takenStore)) \<noteq> 410"
proof -
  let ?g = "\<lparr>g_id = 1, g_inviteCode = ''aaaaaaaa'', g_modelId = ''m1'', g_creatorId = 0,
             g_title = None, g_description = None, g_expiresAt = Some (5000::int)\<rparr>"
  have tok: "truthyString (j_deviceToken \<lparr>j_deviceToken = Some ''dev-b''\<rparr>)"
    by (simp add: truthyString_def)
  have late: "isGroupExpired (g_expiresAt ?g) 5001"
    using expiry_rule [of ?g 5001] by simp
  have edge: "\<not> isGroupExpired (g_expiresAt ?g) 5000"
    using expiry_rule [of ?g 5000] by simp
  from expiry_rule [of ?g 5001 takenStore "''aaaaaaaa''" "\<lparr>j_deviceToken = Some ''dev-b''\<rparr>"]
    expiry_rule [of ?g 5000 takenStore "''aaaaaaaa''" "\<lparr>j_deviceToken = Some ''dev-b''\<rparr>"]
    taken_lookups(1) tok late edge
  show ?thesis by blast
qed

subsection \<open>The order of the join outcomes\<close>

text \<open>
  Claim C5. A join request is answered in this order: 400 when \<open>deviceToken\<close> is
  missing (absent or the empty string, which \<open>!body.deviceToken\<close> treats alike);
  otherwise 404 when no group bears the invite code; otherwise 410 when the group is
  expired; otherwise 400 when a membership row exists for the resolved user and the
  group; otherwise a membership row for that pair is inserted and the status is 200.
  In the first four cases the membership table is left as it was.
\<close>

theorem joinGroup_outcome_order:
  "(\<not> truthyString (j_deviceToken body) \<longrightarrow>
      status (fst (joinGroup code body now s)) = 400 \<and> snd (joinGroup code body now s) = s) \<and>
   (j_deviceToken body = Some tok \<and> tok \<noteq> [] \<longrightarrow>
      (findGroupByCode s code = None \<longrightarrow>
         status (fst (joinGroup code body now s)) = 404 \<and>
         groupMembers (snd (joinGroup code body now s)) = groupMembers s) \<and>
      (findGroupByCode s code = Some g \<longrightarrow>
         (isGroupExpired (g_expiresAt g) now \<longrightarrow>
            status (fst (joinGroup code body now s)) = 410 \<and>
            groupMembers (snd (joinGroup code body now s)) = groupMembers s) \<and>
         (\<not> isGroupExpired (g_expiresAt g) now \<and>
          findMembership s (u_id (fst (ensureUser s tok))) (g_id g) \<noteq> None \<longrightarrow>
            status (fst (joinGroup code body now s)) = 400 \<and>
            groupMembers (snd (joinGroup code body now s)) = groupMembers s) \<and>
         (\<not> isGroupExpired (g_expiresAt g) now \<and>
          findMembership s (u_id (fst (ensureUser s tok))) (g_id g) = None \<longrightarrow>
            status (fst (joinGroup code body now s)) = 200 \<and>
            groupMembers (snd (joinGroup code body now s)) =
              groupMembers s @
                [\<lparr>m_id = nextId (snd (ensureUser s tok)),
                  m_userId = u_id (fst (ensureUser s tok)), m_groupId = g_id g\<rparr>])))"
proof -
  have a: "status (fst (joinGroup code body now s)) = 400 \<and> snd (joinGroup code body now s) = s"
    if "\<not> truthyString (j_deviceToken body)"
    using joinGroup_missing [OF that] by simp
  have b: "status (fst (joinGroup code body now s)) = 404 \<and>
           groupMembers (snd (joinGroup code body now s)) = groupMembers s"
    if "j_deviceToken body = Some tok" "tok \<noteq> []" "findGroupByCode s code = None"
    using joinGroup_not_found [OF that] by (simp add: ensureUser_tables)
  have c: "status (fst (joinGroup code body now s)) = 410 \<and>
           groupMembers (snd (joinGroup code body now s)) = groupMembers s"
    if "j_deviceToken body = Some tok" "tok \<noteq> []" "findGroupByCode s code = Some g"
      "isGroupExpired (g_expiresAt g) now"
    using joinGroup_expired [OF that] by (simp add: ensureUser_tables)
  have d: "status (fst (joinGroup code body now s)) = 400 \<and>
           groupMembers (snd (joinGroup code body now s)) = groupMembers s"
    if "j_deviceToken body = Some tok" "tok \<noteq> []" "findGroupByCode s code = Some g"
      "\<not> isGroupExpired (g_expiresAt g) now"
      "findMembership s (u_id (fst (ensureUser s tok))) (g_id g) \<noteq> None"
  proof -
    from that(5) obtain m where
      "findMembership s (u_id (fst (ensureUser s tok))) (g_id g) = Some m" by blast
    from joinGroup_already_member [OF that(1-4) this] show ?thesis
      by (simp add: ensureUser_tables)
  qed
  have e: "status (fst (joinGroup code body now s)) = 200 \<and>
           groupMembers (snd (joinGroup code body now s)) =
             groupMembers s @
               [\<lparr>m_id = nextId (snd (ensureUser s tok)),
                 m_userId = u_id (fst (ensureUser s tok)), m_groupId = g_id g\<rparr>]"
    if "j_deviceToken body = Some tok" "tok \<noteq> []" "findGroupByCode s code = Some g"
      "\<not> isGroupExpired (g_expiresAt g) now"
      "findMembership s (u_id (fst (ensureUser s tok))) (g_id g) = None"
    using joinGroup_joined [OF that]
    by (simp add: createGroupMember_tables ensureUser_tables)
  from a b c d e show ?thesis by blast
qed

theorem joinGroup_outcome_order_witness:
  "status (fst (joinGroup ''aaaaaaaa'' \<lparr>j_deviceToken = None\<rparr> 6000 takenStore)) = 400 \<and>
   status (fst (joinGroup ''zzzzzzzz'' \<lparr>j_deviceToken = Some ''''\<rparr> 4000 takenStore)) = 400 \<and>
   status (fst (joinGroup ''zzzzzzzz'' \<lparr>j_deviceToken = Some ''dev-b''\<rparr> 4000 takenStore)) = 404 \<and>
   status (fst (joinGroup ''aaaaaaaa'' \<lparr>j_deviceToken = Some ''dev-a''\<rparr> 6000 takenStore)) = 410 \<and>
   status (fst (joinGroup ''aaaaaaaa'' \<lparr>j_deviceToken = Some ''dev-a''\<rparr> 4000 takenStore)) = 400 \<and>
   status (fst (joinGroup ''aaaaaaaa'' \<lparr>j_deviceToken = Some ''dev-b''\<rparr> 4000 takenStore)) = 200 \<and>
   groupMembers (snd (joinGroup ''aaaaaaaa'' \<lparr>j_deviceToken = Some ''dev-b''\<rparr> 4000 takenStore)) =
     [\<lparr>m_id = 2, m_userId = 0, m_groupId = 1\<rparr>, \<lparr>m_id = 4, m_userId = 3, m_groupId = 1\<rparr>]"
proof -
  let ?g = "\<lparr>g_id = 1, g_inviteCode = ''aaaaaaaa'', g_modelId = ''m1'', g_creatorId = 0,
             g_title = None, g_description = None, g_expiresAt = Some (5000::int)\<rparr>"
  have ua: "ensureUser takenStore ''dev-a'' =
              (\<lparr>u_id = 0, u_deviceToken = ''dev-a'', u_name = None\<rparr>, takenStore)"
    by (simp add: ensureUser_known taken_lookups)
  have ub: "u_id (fst (ensureUser takenStore ''dev-b'')) = 3"
    "nextId (snd (ensureUser takenStore ''dev-b'')) = 4"
    by (simp_all add: ensureUser_unseen taken_lookups) (simp_all add: takenStore_def)
  have ma: "findMembership takenStore 0 1 \<noteq> None"
    by (simp add: findMembership_def takenStore_def)
  have mb: "findMembership takenStore 3 1 = None"
    by (simp add: findMembership_def takenStore_def)
  have ex: "isGroupExpired (g_expiresAt ?g) 6000" "\<not> isGroupExpired (g_expiresAt ?g) 4000"
    by (simp_all add: isGroupExpired_def)
  have gm: "groupMembers takenStore = [\<lparr>m_id = 2, m_userId = 0, m_groupId = 1\<rparr>]"
    by (simp add: takenStore_def)
  have c1: "status (fst (joinGroup ''aaaaaaaa'' \<lparr>j_deviceToken = None\<rparr> 6000 takenStore)) = 400"
    using joinGroup_outcome_order [of "\<lparr>j_deviceToken = None\<rparr>" "''aaaaaaaa''" 6000 takenStore]
    by (simp add: truthyString_def)
  have c2: "status (fst (joinGroup ''zzzzzzzz'' \<lparr>j_deviceToken = Some ''''\<rparr> 4000 takenStore)) = 400"
    using joinGroup_outcome_order [of "\<lparr>j_deviceToken = Some ''''\<rparr>" "''zzzzzzzz''" 4000 takenStore]
    by (simp add: truthyString_def)
  have c3: "status (fst (joinGroup ''zzzzzzzz'' \<lparr>j_deviceToken = Some ''dev-b''\<rparr> 4000 takenStore)) = 404"
    using joinGroup_outcome_order [of "\<lparr>j_deviceToken = Some ''dev-b''\<rparr>" "''zzzzzzzz''" 4000
        takenStore "''dev-b''"] taken_lookups(2)
    by simp
  have c4: "status (fst (joinGroup ''aaaaaaaa'' \<lparr>j_deviceToken = Some ''dev-a''\<rparr> 6000 takenStore)) = 410"
    using joinGroup_outcome_order [of "\<lparr>j_deviceToken = Some ''dev-a''\<rparr>" "''aaaaaaaa''" 6000
        takenStore "''dev-a''" ?g] taken_lookups(1) ex(1)
    by simp
  have c5: "status (fst (joinGroup ''aaaaaaaa'' \<lparr>j_deviceToken = Some ''dev-a''\<rparr> 4000 takenStore)) = 400"
    using joinGroup_outcome_order [of "\<lparr>j_deviceToken = Some ''dev-a''\<rparr>" "''aaaaaaaa''" 4000
        takenStore "''dev-a''" ?g] taken_lookups(1) ex(2) ma
    by (simp add: ua)
  have c6: "status (fst (joinGroup ''aaaaaaaa'' \<lparr>j_deviceToken = Some ''dev-b''\<rparr> 4000 takenStore)) = 200 \<and>
     groupMembers (snd (joinGroup ''aaaaaaaa'' \<lparr>j_deviceToken = Some ''dev-b''\<rparr> 4000 takenStore)) =
       [\<lparr>m_id = 2, m_userId = 0, m_groupId = 1\<rparr>, \<lparr>m_id = 4, m_userId = 3, m_groupId = 1\<rparr>]"
    using joinGroup_outcome_order [of "\<lparr>j_deviceToken = Some ''dev-b''\<rparr>" "''aaaaaaaa''" 4000
        takenStore "''dev-b''" ?g] taken_lookups(1) ex(2) mb
    by (simp add: ub gm)
  from c1 c2 c3 c4 c5 c6 show ?thesis by blast
qed

subsection \<open>Expired groups\<close>

lemma groupLandingPage_of_expired:
  "findGroupByCode s code = Some g \<Longrightarrow> isGroupExpired (g_expiresAt g) now \<Longrightarrow>
     groupLandingPage code now s = htmlResponse InvitationExpiredPage"
  by (simp add: groupLandingPage_def)

text \<open>
  Claim C6, as the code has it. For a group whose \<open>expiresAt\<close> is set and in the past,
  whatever its title and description: the get-details route answers 410; the join
  route answers 410 when the request carries a device token (and 400 when it does
  not); the landing route answers with the page "Invitation Expired", a response
  built without a status and so carrying status 200.
\<close>

theorem expired_group_answers:
  assumes "findGroupByCode s code = Some g" "g_expiresAt g = Some t" "t < now"
  shows "status (getGroupDetails code now s) = 410 \<and>
         (truthyString (j_deviceToken body) \<longrightarrow>
            status (fst (joinGroup code body now s)) = 410) \<and>
         (\<not> truthyString (j_deviceToken body) \<longrightarrow>
            status (fst (joinGroup code body now s)) = 400) \<and>
         groupLandingPage code now s = \<lparr>status = 200, content = HtmlBody InvitationExpiredPage\<rparr>"
proof -
  have ex: "isGroupExpired (g_expiresAt g) now"
    using assms(2,3) by (simp add: isGroupExpired_def)
  have "status (getGroupDetails code now s) = 410"
    using getGroupDetails_status [OF assms(1), of now] ex by simp
  moreover have "status (fst (joinGroup code body now s)) = 410"
    if "truthyString (j_deviceToken body)"
    using joinGroup_status_410 [OF that assms(1), of now] ex by simp
  moreover have "status (fst (joinGroup code body now s)) = 400"
    if "\<not> truthyString (j_deviceToken body)"
    using joinGroup_missing [OF that] by simp
  moreover have "groupLandingPage code now s =
                   \<lparr>status = 200, content = HtmlBody InvitationExpiredPage\<rparr>"
    using groupLandingPage_of_expired [OF assms(1) ex] by (simp add: htmlResponse_def)
  ultimately show ?thesis by blast
qed

theorem expired_group_answers_witness:
  "status (getGroupDetails ''aaaaaaaa'' 6000 takenStore) = 410 \<and>
   status (fst (joinGroup ''aaaaaaaa'' \<lparr>j_deviceToken = Some ''dev-b''\<rparr> 6000 takenStore)) = 410 \<and>
   groupLandingPage ''aaaaaaaa'' 6000 takenStore =
     \<lparr>status = 200, content = HtmlBody InvitationExpiredPage\<rparr>"
proof -
  let ?g = "\<lparr>g_id = 1, g_inviteCode = ''aaaaaaaa'', g_modelId = ''m1'', g_creatorId = 0,
             g_title = None, g_description = None, g_expiresAt = Some (5000::int)\<rparr>"
  have e: "g_expiresAt ?g = Some 5000" "(5000::int) < 6000" by simp_all
  have tok: "truthyString (j_deviceToken \<lparr>j_deviceToken = Some ''dev-b''\<rparr>)"
    by (simp add: truthyString_def)
  from expired_group_answers [OF taken_lookups(1) e, of "\<lparr>j_deviceToken = Some ''dev-b''\<rparr>"] tok
  show ?thesis by blast
qed

text \<open>The claim as written fails on the landing route: the group stored under
  \<open>aaaaaaaa\<close> expired at 5000, and at time 6000 the route answers with status 200.\<close>

theorem landing_page_of_expired_group_is_200:
  "findGroupByCode takenStore ''aaaaaaaa'' =
     Some \<lparr>g_id = 1, g_inviteCode = ''aaaaaaaa'', g_modelId = ''m1'', g_creatorId = 0,
           g_title = None, g_description = None, g_expiresAt = Some 5000\<rparr> \<and>
   isGroupExpired (Some 5000) 6000 \<and>
   status (groupLandingPage ''aaaaaaaa'' 6000 takenStore) = 200 \<and>
   status (groupLandingPage ''aaaaaaaa'' 6000 takenStore) \<noteq> 410"
  by (simp add: taken_lookups groupLandingPage_def isGroupExpired_def)

subsection \<open>The member count of a join\<close>

text \<open>
  Claim C7. For every successful join (status 200), the \<open>memberCount\<close> of the response
  is the number of membership rows of the group as loaded with the group, before the
  new row is inserted, plus one; with the requests handled one after the other this
  is the number of rows the group has after the insert.
\<close>

theorem joinGroup_memberCount:
  assumes "joinGroup code body now s = (resp, s')" "status resp = 200"
  shows "\<exists>g jr. findGroupByCode s code = Some g \<and> content resp = JoinGroupBody jr \<and>
           jr_memberCount jr = length (membersOf s (g_id g)) + 1 \<and>
           jr_memberCount jr = length (membersOf s' (g_id g))"
proof (cases rule: joinGroup_cases [where body = body and s = s and code = code and now = now])
  case Missing
  from joinGroup_missing [OF this, of code now s] assms show ?thesis by auto
next
  case (NotFound tok)
  from joinGroup_not_found [OF this, of now] assms show ?thesis by auto
next
  case (Expired tok g)
  from joinGroup_expired [OF this] assms show ?thesis by auto
next
  case (Member tok g m)
  from joinGroup_already_member [OF this] assms show ?thesis by auto
next
  case (Joined tok g)
  from joinGroup_joined [OF this] assms
  have r: "resp = jsonResponse
             (JoinGroupBody
                \<lparr>jr_success = True, jr_groupId = g_id g, jr_modelId = g_modelId g,
                 jr_title = g_title g, jr_description = g_description g,
                 jr_memberCount = length (membersOf s (g_id g)) + 1,
                 jr_message = ''Successfully joined the group''\<rparr>) 200"
    and s': "s' = createGroupMember (snd (ensureUser s tok)) (u_id (fst (ensureUser s tok))) (g_id g)"
    by simp_all
  have "length (membersOf s' (g_id g)) = length (membersOf s (g_id g)) + 1"
    unfolding s' by (simp add: membersOf_createGroupMember ensureUser_lookups)
  with r Joined(3) show ?thesis by simp
qed

theorem joinGroup_memberCount_witness:
  "status (fst (joinGroup ''aaaaaaaa'' \<lparr>j_deviceToken = Some ''dev-b''\<rparr> 4000 takenStore)) = 200 \<and>
   length (membersOf takenStore 1) = 1 \<and>
   (\<exists>jr. content (fst (joinGroup ''aaaaaaaa'' \<lparr>j_deviceToken = Some ''dev-b''\<rparr> 4000 takenStore)) =
           JoinGroupBody jr \<and> jr_memberCount jr = 2)"
proof -
  let ?g = "\<lparr>g_id = 1, g_inviteCode = ''aaaaaaaa'', g_modelId = ''m1'', g_creatorId = 0,
             g_title = None, g_description = None, g_expiresAt = Some (5000::int)\<rparr>"
  let ?j = "joinGroup ''aaaaaaaa'' \<lparr>j_deviceToken = Some ''dev-b''\<rparr> 4000 takenStore"
  have mb: "findMembership takenStore (u_id (fst (ensureUser takenStore ''dev-b''))) (g_id ?g) = None"
    by (simp add: ensureUser_unseen taken_lookups) (simp add: findMembership_def takenStore_def)
  have ok: "status (fst ?j) = 200"
    using joinGroup_joined [of "\<lparr>j_deviceToken = Some ''dev-b''\<rparr>" "''dev-b''" takenStore
        "''aaaaaaaa''" ?g 4000] taken_lookups(1) mb
    by (simp add: isGroupExpired_def)
  have len: "length (membersOf takenStore 1) = 1"
    by (simp add: membersOf_def takenStore_def)
  from joinGroup_memberCount [of "''aaaaaaaa''" "\<lparr>j_deviceToken = Some ''dev-b''\<rparr>" 4000 takenStore
      "fst ?j" "snd ?j"] ok
  obtain g jr where "findGroupByCode takenStore ''aaaaaaaa'' = Some g"
    "content (fst ?j) = JoinGroupBody jr" "jr_memberCount jr = length (membersOf takenStore (g_id g)) + 1"
    by auto
  with taken_lookups(1) len have "content (fst ?j) = JoinGroupBody jr \<and> jr_memberCount jr = 2"
    by auto
  with ok len show ?thesis by blast
qed

subsection \<open>Joining twice\<close>

text \<open>
  Claim C3. If a join request succeeds and the same request (same device token, same
  invite code) is made again on the store the first one left, at a time when the
  group is still not expired, then the second answer is 400, "already a member",
  and the store is left as it was: the membership rows of the group after the second
  request are those after the first, and their number does not grow.
\<close>

theorem join_twice:
  assumes "joinGroup code body now1 s = (r1, s1)" "status r1 = 200"
    and "findGroupByCode s code = Some g" "\<not> isGroupExpired (g_expiresAt g) now2"
  shows "status (fst (joinGroup code body now2 s1)) = 400 \<and>
         content (fst (joinGroup code body now2 s1)) =
           ErrorBody ''User is already a member of this group'' \<and>
         snd (joinGroup code body now2 s1) = s1 \<and>
         membersOf (snd (joinGroup code body now2 s1)) (g_id g) = membersOf s1 (g_id g) \<and>
         length (membersOf s1 (g_id g)) = length (membersOf s (g_id g)) + 1"
proof (cases rule: joinGroup_cases [where body = body and s = s and code = code and now = now1])
  case Missing
  from joinGroup_missing [OF this, of code now1 s] assms show ?thesis by auto
next
  case (NotFound tok)
  from joinGroup_not_found [OF this, of now1] assms show ?thesis by auto
next
  case (Expired tok g')
  from joinGroup_expired [OF this] assms show ?thesis by auto
next
  case (Member tok g' m)
  from joinGroup_already_member [OF this] assms show ?thesis by auto
next
  case (Joined tok g')
  let ?u = "fst (ensureUser s tok)"
  let ?s0 = "snd (ensureUser s tok)"
  from Joined(3) assms(3) have g': "g' = g" by simp
  from joinGroup_joined [OF Joined] assms(1)
  have s1: "s1 = createGroupMember ?s0 (u_id ?u) (g_id g)" by (simp add: g')
  have users: "users s1 = users ?s0" and grps: "groups s1 = groups s"
    and mems: "groupMembers s1 =
                 groupMembers s @ [\<lparr>m_id = nextId ?s0, m_userId = u_id ?u, m_groupId = g_id g\<rparr>]"
    unfolding s1 by (simp_all add: createGroupMember_tables ensureUser_tables)
  have "findUserByToken s1 tok = Some ?u"
    using ensureUser_resolves [of s tok] by (simp add: findUserByToken_def users)
  then have eu: "ensureUser s1 tok = (?u, s1)" by (rule ensureUser_known)
  have fg: "findGroupByCode s1 code = Some g"
    using assms(3) by (simp add: findGroupByCode_def grps)
  have "find (\<lambda>m. m_userId m = u_id ?u \<and> m_groupId m = g_id g) (groupMembers s) = None"
    using Joined(5) by (simp add: findMembership_def g')
  then have fm: "findMembership s1 (u_id (fst (ensureUser s1 tok))) (g_id g) =
                   Some \<lparr>m_id = nextId ?s0, m_userId = u_id ?u, m_groupId = g_id g\<rparr>"
    by (simp add: findMembership_def mems find_snoc eu)
  from joinGroup_already_member [OF Joined(1,2) fg assms(4) fm]
  have second: "joinGroup code body now2 s1 =
                  (errorResponse ''User is already a member of this group'' 400, s1)"
    by (simp add: eu)
  have "length (membersOf s1 (g_id g)) = length (membersOf s (g_id g)) + 1"
    by (simp add: membersOf_def mems)
  with second show ?thesis by simp
qed

theorem join_twice_witness:
  "status (fst (joinGroup ''aaaaaaaa'' \<lparr>j_deviceToken = Some ''dev-b''\<rparr> 4000 takenStore)) = 200 \<and>
   status (fst (joinGroup ''aaaaaaaa'' \<lparr>j_deviceToken = Some ''dev-b''\<rparr> 4500
                 (snd (joinGroup ''aaaaaaaa'' \<lparr>j_deviceToken = Some ''dev-b''\<rparr> 4000 takenStore)))) = 400 \<and>
   snd (joinGroup ''aaaaaaaa'' \<lparr>j_deviceToken = Some ''dev-b''\<rparr> 4500
          (snd (joinGroup ''aaaaaaaa'' \<lparr>j_deviceToken = Some ''dev-b''\<rparr> 4000 takenStore))) =
     snd (joinGroup ''aaaaaaaa'' \<lparr>j_deviceToken = Some ''dev-b''\<rparr> 4000 takenStore)"
proof -
  let ?g = "\<lparr>g_id = 1, g_inviteCode = ''aaaaaaaa'', g_modelId = ''m1'', g_creatorId = 0,
             g_title = None, g_description = None, g_expiresAt = Some (5000::int)\<rparr>"
  let ?b = "\<lparr>j_deviceToken = Some ''dev-b''\<rparr>"
  let ?j = "joinGroup ''aaaaaaaa'' ?b 4000 takenStore"
  have mb: "findMembership takenStore (u_id (fst (ensureUser takenStore ''dev-b''))) (g_id ?g) = None"
    by (simp add: ensureUser_unseen taken_lookups) (simp add: findMembership_def takenStore_def)
  have ok: "status (fst ?j) = 200"
    using joinGroup_joined [of ?b "''dev-b''" takenStore "''aaaaaaaa''" ?g 4000] taken_lookups(1) mb
    by (simp add: isGroupExpired_def)
  have ne: "\<not> isGroupExpired (g_expiresAt ?g) 4500" by (simp add: isGroupExpired_def)
  have pair: "?j = (fst ?j, snd ?j)" by simp
  from join_twice [OF pair ok taken_lookups(1) ne] ok show ?thesis by blast
qed

subsection \<open>Identity resolution comes first\<close>

lemma joinGroup_users:
  assumes "j_deviceToken body = Some tok" "tok \<noteq> []"
  shows "users (snd (joinGroup code body now s)) = users (snd (ensureUser s tok))"
proof (cases rule: joinGroup_cases [where body = body and s = s and code = code and now = now])
  case Missing
  with assms show ?thesis by (simp add: truthyString_def)
next
  case (NotFound tok')
  from joinGroup_not_found [OF this, of now] assms NotFound(1) show ?thesis by simp
next
  case (Expired tok' g)
  from joinGroup_expired [OF this] assms Expired(1) show ?thesis by simp
next
  case (Member tok' g m)
  from joinGroup_already_member [OF this] assms Member(1) show ?thesis by simp
next
  case (Joined tok' g)
  from joinGroup_joined [OF this] assms Joined(1) show ?thesis
    by (simp add: createGroupMember_tables)
qed

text \<open>
  Claim C10. A join request that carries a device token with no user row creates the
  user row for it whatever the outcome, since \<open>ensureUser\<close> runs before the group
  lookup and the eligibility checks: after the request the user table is the old one
  with the new row appended, also when the answer is 404, 410 or 400, so these error
  answers change the store.
\<close>

theorem joinGroup_creates_user:
  assumes "j_deviceToken body = Some tok" "tok \<noteq> []" "findUserByToken s tok = None"
  shows "users (snd (joinGroup code body now s)) =
           users s @ [\<lparr>u_id = nextId s, u_deviceToken = tok, u_name = None\<rparr>] \<and>
         findUserByToken (snd (joinGroup code body now s)) tok =
           Some \<lparr>u_id = nextId s, u_deviceToken = tok, u_name = None\<rparr> \<and>
         snd (joinGroup code body now s) \<noteq> s \<and>
         (findGroupByCode s code = None \<longrightarrow> status (fst (joinGroup code body now s)) = 404) \<and>
         (\<forall>g. findGroupByCode s code = Some g \<and> isGroupExpired (g_expiresAt g) now \<longrightarrow>
            status (fst (joinGroup code body now s)) = 410) \<and>
         (\<forall>g m. findGroupByCode s code = Some g \<and> \<not> isGroupExpired (g_expiresAt g) now \<and>
            findMembership s (nextId s) (g_id g) = Some m \<longrightarrow>
            status (fst (joinGroup code body now s)) = 400)"
proof -
  let ?new = "\<lparr>u_id = nextId s, u_deviceToken = tok, u_name = None\<rparr>"
  have eu: "ensureUser s tok = (?new, s\<lparr>users := users s @ [?new], nextId := nextId s + 1\<rparr>)"
    by (rule ensureUser_unseen [OF assms(3)])
  have u: "users (snd (joinGroup code body now s)) = users s @ [?new]"
    using joinGroup_users [OF assms(1,2), of code now s] by (simp add: eu)
  have "find (\<lambda>u. u_deviceToken u = tok) (users s) = None"
    using assms(3) by (simp add: findUserByToken_def)
  then have f: "findUserByToken (snd (joinGroup code body now s)) tok = Some ?new"
    by (simp add: findUserByToken_def u find_snoc)
  have n: "snd (joinGroup code body now s) \<noteq> s"
    using u by auto
  have a: "status (fst (joinGroup code body now s)) = 404" if "findGroupByCode s code = None"
    using joinGroup_not_found [OF assms(1,2) that, of now] by simp
  have b: "status (fst (joinGroup code body now s)) = 410"
    if "findGroupByCode s code = Some g" "isGroupExpired (g_expiresAt g) now" for g
    using joinGroup_expired [OF assms(1,2) that] by simp
  have c: "status (fst (joinGroup code body now s)) = 400"
    if "findGroupByCode s code = Some g" "\<not> isGroupExpired (g_expiresAt g) now"
      "findMembership s (nextId s) (g_id g) = Some m" for g m
    using joinGroup_already_member [OF assms(1,2) that(1,2), of m] that(3) by (simp add: eu)
  from u f n a b c show ?thesis by blast
qed

theorem joinGroup_creates_user_witness:
  "status (fst (joinGroup ''zzzzzzzz'' \<lparr>j_deviceToken = Some ''dev-b''\<rparr> 6000 takenStore)) = 404 \<and>
   users (snd (joinGroup ''zzzzzzzz'' \<lparr>j_deviceToken = Some ''dev-b''\<rparr> 6000 takenStore)) =
     [\<lparr>u_id = 0, u_deviceToken = ''dev-a'', u_name = None\<rparr>,
      \<lparr>u_id = 3, u_deviceToken = ''dev-b'', u_name = None\<rparr>] \<and>
   status (fst (joinGroup ''aaaaaaaa'' \<lparr>j_deviceToken = Some ''dev-b''\<rparr> 6000 takenStore)) = 410 \<and>
   users (snd (joinGroup ''aaaaaaaa'' \<lparr>j_deviceToken = Some ''dev-b''\<rparr> 6000 takenStore)) =
     [\<lparr>u_id = 0, u_deviceToken = ''dev-a'', u_name = None\<rparr>,
      \<lparr>u_id = 3, u_deviceToken = ''dev-b'', u_name = None\<rparr>]"
proof -
  let ?g = "\<lparr>g_id = 1, g_inviteCode = ''aaaaaaaa'', g_modelId = ''m1'', g_creatorId = 0,
             g_title = None, g_description = None, g_expiresAt = Some (5000::int)\<rparr>"
  let ?b = "\<lparr>j_deviceToken = Some ''dev-b''\<rparr>"
  have t: "j_deviceToken ?b = Some ''dev-b''" "''dev-b'' \<noteq> []" by simp_all
  have st: "users takenStore = [\<lparr>u_id = 0, u_deviceToken = ''dev-a'', u_name = None\<rparr>]"
    "nextId takenStore = 3"
    by (simp_all add: takenStore_def)
  have ex: "isGroupExpired (g_expiresAt ?g) 6000" by (simp add: isGroupExpired_def)
  from joinGroup_creates_user [OF t taken_lookups(4), of "''zzzzzzzz''" 6000] taken_lookups(2)
  have p: "status (fst (joinGroup ''zzzzzzzz'' ?b 6000 takenStore)) = 404 \<and>
           users (snd (joinGroup ''zzzzzzzz'' ?b 6000 takenStore)) =
             [\<lparr>u_id = 0, u_deviceToken = ''dev-a'', u_name = None\<rparr>,
              \<lparr>u_id = 3, u_deviceToken = ''dev-b'', u_name = None\<rparr>]"
    by (simp add: st)
  from joinGroup_creates_user [OF t taken_lookups(4), of "''aaaaaaaa''" 6000] taken_lookups(1) ex
  have q: "status (fst (joinGroup ''aaaaaaaa'' ?b 6000 takenStore)) = 410 \<and>
           users (snd (joinGroup ''aaaaaaaa'' ?b 6000 takenStore)) =
             [\<lparr>u_id = 0, u_deviceToken = ''dev-a'', u_name = None\<rparr>,
              \<lparr>u_id = 3, u_deviceToken = ''dev-b'', u_name = None\<rparr>]"
    by (simp add: st)
  from p q show ?thesis by blast
qed

section \<open>Creating a group\<close>

lemma computeExpiresAt_cases:
  "computeExpiresAt None now = None"
  "computeExpiresAt (Some (Num 0)) now = None"
  "h \<noteq> 0 \<Longrightarrow>
     computeExpiresAt (Some (Num h)) now =
       Some (newDate (jsAdd (Num (of_int now))
                        (jsMul (jsMul (jsMul (Num h) (Num 60)) (Num 60)) (Num 1000))))"
  by (simp_all add: computeExpiresAt_def truthyNumber_def)

lemma jsonNumber_zero: "jsonNumber 0 = Num 0"
  by (simp add: jsonNumber_def roundToDouble_def)

text \<open>A whole number of hours that keeps the sum below \<open>2 ^ 53\<close> is added exactly:
  every product and the sum are integers that are doubles.\<close>

lemma computeExpiresAt_whole_hours:
  assumes "0 < k" "0 \<le> now" "now + k * 3600000 < 2 ^ 53"
  shows "computeExpiresAt (Some (jsonNumber (of_int k))) now =
           Some (newDate (Num (of_int (now + k * 3600000))))"
proof -
  have r0: "roundToDouble (of_int k) = Num (of_int k)"
    by (rule roundToDouble_int) (use assms in simp_all)
  have r1: "roundToDouble (of_int (k * 60)) = Num (of_int (k * 60))"
    by (rule roundToDouble_int) (use assms in simp_all)
  have r2: "roundToDouble (of_int (k * 60 * 60)) = Num (of_int (k * 60 * 60))"
    by (rule roundToDouble_int) (use assms in simp_all)
  have r3: "roundToDouble (of_int (k * 60 * 60 * 1000)) = Num (of_int (k * 60 * 60 * 1000))"
    by (rule roundToDouble_int) (use assms in simp_all)
  have r4: "roundToDouble (of_int (now + k * 60 * 60 * 1000)) =
              Num (of_int (now + k * 60 * 60 * 1000))"
    by (rule roundToDouble_int) (use assms in simp_all)
  have m1: "jsMul (Num (of_int k)) (Num 60) = Num (of_int (k * 60))"
    using r1 by simp
  have m2: "jsMul (Num (of_int (k * 60))) (Num 60) = Num (of_int (k * 60 * 60))"
    using r2 by simp
  have m3: "jsMul (Num (of_int (k * 60 * 60))) (Num 1000) = Num (of_int (k * 60 * 60 * 1000))"
    using r3 by simp
  have a: "jsAdd (Num (of_int now)) (Num (of_int (k * 60 * 60 * 1000))) =
             Num (of_int (now + k * 3600000))"
    using r4 by simp
  have nz: "(of_int k :: rat) \<noteq> 0" using assms(1) by simp
  show ?thesis
    unfolding jsonNumber_def r0 computeExpiresAt_cases(3) [OF nz] m1 m2 m3 a ..
qed

lemma newDate_in_range:
  "\<bar>t\<bar> \<le> 8640000000000000 \<Longrightarrow> newDate (Num (of_int t)) = DateMs t"
proof -
  assume "\<bar>t\<bar> \<le> 8640000000000000"
  then have "\<bar>of_int t :: rat\<bar> \<le> of_int 8640000000000000"
    by (simp only: of_int_abs [symmetric] of_int_le_iff)
  then show ?thesis by (simp add: newDate_def truncateMs_of_int)
qed

text \<open>The handler once both required fields are present and the loop has returned.\<close>

lemma createGroup_allocated:
  assumes "c_deviceToken body = Some tok" "tok \<noteq> []" "c_modelId body = Some mid" "mid \<noteq> []"
    and "allocateInviteCode rnd (snd (ensureUser s tok)) 0 = Some code"
  shows "createGroup body rnd now s =
     (case computeExpiresAt (map_option jsonNumber (c_expirationHours body)) now of
        Some InvalidDate \<Rightarrow>
          Some (errorResponse ''Internal server error'' 500, snd (ensureUser s tok))
      | Some (DateMs t) \<Rightarrow>
          Some (jsonResponse
                  (CreateGroupBody
                     \<lparr>cr_groupId = nextId (snd (ensureUser s tok)), cr_inviteCode = code,
                      cr_inviteUrl = ''https://coco.co/g/'' @ code, cr_modelId = mid,
                      cr_title = c_title body, cr_description = c_description body,
                      cr_expiresAt = Some t, cr_memberCount = 1\<rparr>) 201,
                createGroupMember
                  (snd (createGroupRow (snd (ensureUser s tok)) code mid
                          (u_id (fst (ensureUser s tok))) (c_title body) (c_description body)
                          (Some t)))
                  (u_id (fst (ensureUser s tok))) (nextId (snd (ensureUser s tok))))
      | None \<Rightarrow>
          Some (jsonResponse
                  (CreateGroupBody
                     \<lparr>cr_groupId = nextId (snd (ensureUser s tok)), cr_inviteCode = code,
                      cr_inviteUrl = ''https://coco.co/g/'' @ code, cr_modelId = mid,
                      cr_title = c_title body, cr_description = c_description body,
                      cr_expiresAt = None, cr_memberCount = 1\<rparr>) 201,
                createGroupMember
                  (snd (createGroupRow (snd (ensureUser s tok)) code mid
                          (u_id (fst (ensureUser s tok))) (c_title body) (c_description body)
                          None))
                  (u_id (fst (ensureUser s tok))) (nextId (snd (ensureUser s tok)))))"
  using assms
  by (simp add: createGroup_def truthyString_def split_beta Let_def createGroupRow_def
           split: option.splits jsDate.splits)

lemma createGroup_missing:
  "\<not> truthyString (c_deviceToken body) \<or> \<not> truthyString (c_modelId body) \<Longrightarrow>
     createGroup body rnd now s =
       Some (errorResponse ''deviceToken and modelId are required'' 400, s)"
  by (simp add: createGroup_def)

lemma createGroup_diverges:
  assumes "c_deviceToken body = Some tok" "tok \<noteq> []" "c_modelId body = Some mid" "mid \<noteq> []"
    and "allocateInviteCode rnd (snd (ensureUser s tok)) 0 = None"
  shows "createGroup body rnd now s = None"
  using assms by (simp add: createGroup_def truthyString_def split_beta Let_def)

text \<open>What a 201 answer tells: the fields were present, the loop returned a code, the
  expiry was absent or a valid date, and both rows were written.\<close>

lemma createGroup_201:
  assumes "createGroup body rnd now s = Some (resp, s')" "status resp = 201"
  obtains tok mid code stored where
    "c_deviceToken body = Some tok" "tok \<noteq> []" "c_modelId body = Some mid" "mid \<noteq> []"
    "allocateInviteCode rnd (snd (ensureUser s tok)) 0 = Some code"
    "computeExpiresAt (map_option jsonNumber (c_expirationHours body)) now =
       map_option DateMs stored"
    "resp = jsonResponse
              (CreateGroupBody
                 \<lparr>cr_groupId = nextId (snd (ensureUser s tok)), cr_inviteCode = code,
                  cr_inviteUrl = ''https://coco.co/g/'' @ code, cr_modelId = mid,
                  cr_title = c_title body, cr_description = c_description body,
                  cr_expiresAt = stored, cr_memberCount = 1\<rparr>) 201"
    "s' = createGroupMember
            (snd (createGroupRow (snd (ensureUser s tok)) code mid
                    (u_id (fst (ensureUser s tok))) (c_title body) (c_description body) stored))
            (u_id (fst (ensureUser s tok))) (nextId (snd (ensureUser s tok)))"
proof (cases "truthyString (c_deviceToken body) \<and> truthyString (c_modelId body)")
  case False
  then have "createGroup body rnd now s =
               Some (errorResponse ''deviceToken and modelId are required'' 400, s)"
    by (intro createGroup_missing) blast
  with assms show ?thesis by auto
next
  case True
  then obtain tok mid where f: "c_deviceToken body = Some tok" "tok \<noteq> []"
    "c_modelId body = Some mid" "mid \<noteq> []"
    by (auto simp: truthyString_def split: option.splits)
  show ?thesis
  proof (cases "allocateInviteCode rnd (snd (ensureUser s tok)) 0")
    case None
    from createGroup_diverges [OF f None] assms show ?thesis by auto
  next
    case (Some code)
    note unf = createGroup_allocated [OF f Some, of now]
    show ?thesis
    proof (cases "computeExpiresAt (map_option jsonNumber (c_expirationHours body)) now")
      case None
      with unf assms that [OF f Some, of None] show ?thesis by auto
    next
      case (Some d)
      show ?thesis
      proof (cases d)
        case (DateMs t)
        with Some unf assms that [OF f \<open>allocateInviteCode rnd (snd (ensureUser s tok)) 0 = Some code\<close>,
            of "Some t"]
        show ?thesis by auto
      next
        case InvalidDate
        with Some unf assms show ?thesis by auto
      qed
    qed
  qed
qed

subsection \<open>The store invariant\<close>

lemma emptyStore_consistent: "storeConsistent emptyStore"
  by (simp add: storeConsistent_def emptyStore_def)

lemma takenStore_consistent: "storeConsistent takenStore"
  by (simp add: storeConsistent_def takenStore_def)

lemma consistent_fresh_group:
  "storeConsistent s \<Longrightarrow> membersOf s (nextId s) = []"
  by (fastforce simp: storeConsistent_def membersOf_def filter_empty_conv)

lemma joinGroup_consistent:
  assumes "storeConsistent s"
  shows "storeConsistent (snd (joinGroup code body now s))"
proof (cases rule: joinGroup_cases [where body = body and s = s and code = code and now = now])
  case Missing
  from joinGroup_missing [OF this, of code now s] assms show ?thesis by simp
next
  case (NotFound tok)
  from joinGroup_not_found [OF this, of now] assms show ?thesis
    by (simp add: ensureUser_consistent)
next
  case (Expired tok g)
  from joinGroup_expired [OF this] assms show ?thesis by (simp add: ensureUser_consistent)
next
  case (Member tok g m)
  from joinGroup_already_member [OF this] assms show ?thesis
    by (simp add: ensureUser_consistent)
next
  case (Joined tok g)
  have "g \<in> set (groups s)"
    using Joined(3) by (auto simp: findGroupByCode_def dest: find_Some_iff [THEN iffD1] nth_mem)
  then have g: "g \<in> set (groups (snd (ensureUser s tok)))" by (simp add: ensureUser_tables)
  have c: "storeConsistent (snd (ensureUser s tok))" by (rule ensureUser_consistent [OF assms])
  have "storeConsistent (createGroupMember (snd (ensureUser s tok)) uid (g_id g))" for uid
    using c g by (auto simp: storeConsistent_def createGroupMember_def less_Suc_eq)
  with joinGroup_joined [OF Joined] show ?thesis by simp
qed

lemma createGroup_consistent:
  assumes "storeConsistent s" "createGroup body rnd now s = Some (resp, s')"
  shows "storeConsistent s'"
proof (cases "truthyString (c_deviceToken body) \<and> truthyString (c_modelId body)")
  case False
  then have "createGroup body rnd now s =
               Some (errorResponse ''deviceToken and modelId are required'' 400, s)"
    by (intro createGroup_missing) blast
  with assms show ?thesis by simp
next
  case True
  then obtain tok mid where f: "c_deviceToken body = Some tok" "tok \<noteq> []"
    "c_modelId body = Some mid" "mid \<noteq> []"
    by (auto simp: truthyString_def split: option.splits)
  have c: "storeConsistent (snd (ensureUser s tok))" by (rule ensureUser_consistent [OF assms(1)])
  have row: "storeConsistent
               (createGroupMember (snd (createGroupRow (snd (ensureUser s tok)) code mid uid ti de ex))
                  uid (nextId (snd (ensureUser s tok))))" for code uid ti de ex
    using c
    by (auto simp: storeConsistent_def createGroupMember_def createGroupRow_def Let_def less_Suc_eq)
  show ?thesis
  proof (cases "allocateInviteCode rnd (snd (ensureUser s tok)) 0")
    case None
    from createGroup_diverges [OF f None] assms show ?thesis by simp
  next
    case (Some code)
    from createGroup_allocated [OF f Some, of now] assms(2) c row show ?thesis
      by (auto split: option.splits jsDate.splits)
  qed
qed

subsection \<open>The creator is the only member\<close>

text \<open>
  Claim C2. For every create-group request with a \<open>deviceToken\<close> and a \<open>modelId\<close>,
  once the operation has succeeded (status 201) on a consistent store: the device
  token resolves to a user, the creator; the group stored under the returned invite
  code has the returned id and that user as its creator; the group has exactly one
  membership row, whose \<open>userId\<close> is the creator's id; and the response reports
  \<open>memberCount\<close> 1.
\<close>

theorem createGroup_single_member:
  assumes "createGroup body rnd now s = Some (resp, s')" "status resp = 201"
    and "storeConsistent s"
  shows "\<exists>tok creator cr g m.
           c_deviceToken body = Some tok \<and>
           findUserByToken s' tok = Some creator \<and>
           content resp = CreateGroupBody cr \<and>
           cr_memberCount cr = 1 \<and>
           findGroupByCode s' (cr_inviteCode cr) = Some g \<and>
           g_id g = cr_groupId cr \<and>
           g_creatorId g = u_id creator \<and>
           membersOf s' (cr_groupId cr) = [m] \<and>
           m_userId m = u_id creator \<and>
           length (membersOf s' (cr_groupId cr)) = cr_memberCount cr"
proof -
  from assms(1,2) obtain tok mid code stored where
    tok: "c_deviceToken body = Some tok" and
    alloc: "allocateInviteCode rnd (snd (ensureUser s tok)) 0 = Some code" and
    resp: "resp = jsonResponse
              (CreateGroupBody
                 \<lparr>cr_groupId = nextId (snd (ensureUser s tok)), cr_inviteCode = code,
                  cr_inviteUrl = ''https://coco.co/g/'' @ code, cr_modelId = mid,
                  cr_title = c_title body, cr_description = c_description body,
                  cr_expiresAt = stored, cr_memberCount = 1\<rparr>) 201" and
    s': "s' = createGroupMember
            (snd (createGroupRow (snd (ensureUser s tok)) code mid
                    (u_id (fst (ensureUser s tok))) (c_title body) (c_description body) stored))
            (u_id (fst (ensureUser s tok))) (nextId (snd (ensureUser s tok)))"
    by (rule createGroup_201)
  let ?u = "fst (ensureUser s tok)"
  let ?s1 = "snd (ensureUser s tok)"
  let ?g = "\<lparr>g_id = nextId ?s1, g_inviteCode = code, g_modelId = mid, g_creatorId = u_id ?u,
             g_title = c_title body, g_description = c_description body, g_expiresAt = stored\<rparr>"
  let ?m = "\<lparr>m_id = nextId ?s1 + 1, m_userId = u_id ?u, m_groupId = nextId ?s1\<rparr>"
  have users: "users s' = users ?s1" and grps: "groups s' = groups ?s1 @ [?g]"
    and mems: "groupMembers s' = groupMembers ?s1 @ [?m]"
    unfolding s' by (simp_all add: createGroupMember_def createGroupRow_def Let_def)
  have creator: "findUserByToken s' tok = Some ?u"
    using ensureUser_resolves [of s tok] by (simp add: findUserByToken_def users)
  from allocate_sound [OF alloc] have "findGroupByCode ?s1 code = None" by simp
  then have found: "findGroupByCode s' code = Some ?g"
    by (simp add: findGroupByCode_def grps find_snoc)
  have "membersOf ?s1 (nextId ?s1) = []"
    by (rule consistent_fresh_group [OF ensureUser_consistent [OF assms(3)]])
  then have only: "membersOf s' (nextId ?s1) = [?m]"
    by (simp add: membersOf_def mems)
  from tok creator found only show ?thesis
    unfolding resp by simp
qed

lemma createGroup_oneHour_run:
  "createGroup oneHourRequest stepDraws 1000 takenStore =
     Some (\<lparr>status = 201,
            content = CreateGroupBody
              \<lparr>cr_groupId = 4, cr_inviteCode = ''bbbbbbbb'',
               cr_inviteUrl = ''https://coco.co/g/bbbbbbbb'', cr_modelId = ''m2'',
               cr_title = Some ''Chairs'', cr_description = None,
               cr_expiresAt = Some 3601000, cr_memberCount = 1\<rparr>\<rparr>,
           \<lparr>users = [\<lparr>u_id = 0, u_deviceToken = ''dev-a'', u_name = None\<rparr>,
                     \<lparr>u_id = 3, u_deviceToken = ''dev-b'', u_name = None\<rparr>],
            groups = [\<lparr>g_id = 1, g_inviteCode = ''aaaaaaaa'', g_modelId = ''m1'', g_creatorId = 0,
                       g_title = None, g_description = None, g_expiresAt = Some 5000\<rparr>,
                      \<lparr>g_id = 4, g_inviteCode = ''bbbbbbbb'', g_modelId = ''m2'', g_creatorId = 3,
                       g_title = Some ''Chairs'', g_description = None,
                       g_expiresAt = Some 3601000\<rparr>],
            groupMembers = [\<lparr>m_id = 2, m_userId = 0, m_groupId = 1\<rparr>,
                            \<lparr>m_id = 5, m_userId = 3, m_groupId = 4\<rparr>],
            nextId = 6\<rparr>)"
proof -
  have f: "c_deviceToken oneHourRequest = Some ''dev-b''" "''dev-b'' \<noteq> []"
    "c_modelId oneHourRequest = Some ''m2''" "''m2'' \<noteq> []"
    by (simp_all add: oneHourRequest_def)
  have "allocateInviteCode stepDraws (snd (ensureUser takenStore ''dev-b'')) 0 =
          Some (generateInviteCode stepDraws (0 + 8 * 1))"
    by (rule allocate_first_free; simp add: ensureUser_lookups gen_step0 gen_step8)
       (simp_all add: findGroupByCode_def takenStore_def)
  then have a: "allocateInviteCode stepDraws (snd (ensureUser takenStore ''dev-b'')) 0 =
                  Some ''bbbbbbbb''"
    by (simp add: gen_step8)
  have "computeExpiresAt (Some (jsonNumber (of_int 1))) 1000 =
          Some (newDate (Num (of_int (1000 + 1 * 3600000))))"
    by (rule computeExpiresAt_whole_hours) simp_all
  moreover have "newDate (Num (of_int (1000 + 1 * 3600000))) = DateMs 3601000"
    using newDate_in_range [of 3601000] by simp
  ultimately
  have e: "computeExpiresAt (map_option jsonNumber (c_expirationHours oneHourRequest)) 1000 =
             Some (DateMs 3601000)"
    by (simp add: oneHourRequest_def)
  show ?thesis
    unfolding createGroup_allocated [OF f a] e
    by (simp add: ensureUser_unseen taken_lookups createGroupRow_def createGroupMember_def
          jsonResponse_def Let_def)
       (simp add: takenStore_def oneHourRequest_def)
qed

theorem createGroup_single_member_witness:
  "(\<exists>r s. createGroup oneHourRequest stepDraws 1000 takenStore = Some (r, s) \<and>
           status r = 201 \<and>
           membersOf s 4 = [\<lparr>m_id = 5, m_userId = 3, m_groupId = 4\<rparr>] \<and>
           findUserByToken s ''dev-b'' = Some \<lparr>u_id = 3, u_deviceToken = ''dev-b'', u_name = None\<rparr>)"
proof -
  let ?r = "\<lparr>status = 201,
            content = CreateGroupBody
              \<lparr>cr_groupId = 4, cr_inviteCode = ''bbbbbbbb'',
               cr_inviteUrl = ''https://coco.co/g/bbbbbbbb'', cr_modelId = ''m2'',
               cr_title = Some ''Chairs'', cr_description = None,
               cr_expiresAt = Some 3601000, cr_memberCount = 1\<rparr>\<rparr>"
  let ?s = "\<lparr>users = [\<lparr>u_id = 0, u_deviceToken = ''dev-a'', u_name = None\<rparr>,
                     \<lparr>u_id = 3, u_deviceToken = ''dev-b'', u_name = None\<rparr>],
            groups = [\<lparr>g_id = 1, g_inviteCode = ''aaaaaaaa'', g_modelId = ''m1'', g_creatorId = 0,
                       g_title = None, g_description = None, g_expiresAt = Some 5000\<rparr>,
                      \<lparr>g_id = 4, g_inviteCode = ''bbbbbbbb'', g_modelId = ''m2'', g_creatorId = 3,
                       g_title = Some ''Chairs'', g_description = None,
                       g_expiresAt = Some 3601000\<rparr>],
            groupMembers = [\<lparr>m_id = 2, m_userId = 0, m_groupId = 1\<rparr>,
                            \<lparr>m_id = 5, m_userId = 3, m_groupId = 4\<rparr>],
            nextId = 6\<rparr>"
  have run: "createGroup oneHourRequest stepDraws 1000 takenStore = Some (?r, ?s)"
    by (rule createGroup_oneHour_run)
  have st: "status ?r = 201" by simp
  from createGroup_single_member [OF run st takenStore_consistent]
  obtain tok creator cr g m where
    w: "c_deviceToken oneHourRequest = Some tok" "findUserByToken ?s tok = Some creator"
      "content ?r = CreateGroupBody cr" "membersOf ?s (cr_groupId cr) = [m]"
      "m_userId m = u_id creator"
    by blast
  from w(1) have tok: "tok = ''dev-b''" by (simp add: oneHourRequest_def)
  from w(3) have cr: "cr_groupId cr = 4" by auto
  have m: "membersOf ?s 4 = [\<lparr>m_id = 5, m_userId = 3, m_groupId = 4\<rparr>]"
    using w(4) cr by (auto simp: membersOf_def)
  have u: "findUserByToken ?s ''dev-b'' = Some \<lparr>u_id = 3, u_deviceToken = ''dev-b'', u_name = None\<rparr>"
    using w(2) tok by (auto simp: findUserByToken_def)
  from run st m u show ?thesis by blast
qed

subsection \<open>The expiry of a new group\<close>

text \<open>The arithmetic is that of Numbers: for \<open>expirationHours = 0.003\<close> at clock 1000
  each of the three products and the sum is rounded, the time value is
  \<open>11799.999999999998\<close>, and the date is 11799, not 11800.\<close>

lemma roundHalfEven_near:
  assumes "\<bar>q - of_int n\<bar> < 1 / 2"
  shows "roundHalfEven q = n"
proof -
  have "of_int (roundHalfEven q) \<le> q + 1 / 2" "q - 1 / 2 \<le> of_int (roundHalfEven q)"
    by (rule roundHalfEven_upper, rule roundHalfEven_lower)
  with assms have "\<bar>(of_int (roundHalfEven q) :: rat) - of_int n\<bar> < 1" by linarith
  then have "\<bar>(of_int (roundHalfEven q - n) :: rat)\<bar> < of_int 1" by simp
  then have "\<bar>roundHalfEven q - n\<bar> < 1"
    by (simp only: of_int_abs [symmetric] of_int_less_iff)
  then show ?thesis by simp
qed

lemma roundToDouble_near:
  assumes "2 powi e \<le> x" "x < 2 powi (e + 1)" "- 1022 \<le> e" "e \<le> 1022"
    and "\<bar>x / 2 powi (e - 52) - of_int n\<bar> < 1 / 2"
  shows "roundToDouble x = Num (of_int n * 2 powi (e - 52))"
proof -
  have "(0::rat) < 2 powi e" by simp
  with assms(1) have pos: "0 < x" by linarith
  have b: "binade x = e" by (rule binade_eqI [OF pos assms(1,2)])
  have u: "ulpOf x = 2 powi (e - 52)" by (rule ulpOf_eq [OF b assms(3)])
  from roundPos_upper [OF pos assms(2)] assms(3,4)
  obtain y where y: "roundPos x = Num y" by auto
  from roundPos_NumD [OF y] have "y = of_int (roundHalfEven (x / 2 powi (e - 52))) * 2 powi (e - 52)"
    by (simp only: u)
  also have "roundHalfEven (x / 2 powi (e - 52)) = n" by (rule roundHalfEven_near [OF assms(5)])
  finally show ?thesis using y pos by (simp add: roundToDouble_def)
qed

lemma computeExpiresAt_three_thousandths:
  "computeExpiresAt (Some (jsonNumber (3 / 1000))) 1000 = Some (DateMs 11799)"
proof -
  have h: "roundToDouble (3 / 1000) = Num (of_int 6917529027641082 * 2 powi (- 9 - 52))"
    by (rule roundToDouble_near) simp_all
  have m1: "roundToDouble (of_int 6917529027641082 * 2 powi (- 9 - 52) * 60) =
              Num (of_int 6485183463413514 * 2 powi (- 3 - 52))"
    by (rule roundToDouble_near) simp_all
  have m2: "roundToDouble (of_int 6485183463413514 * 2 powi (- 3 - 52) * 60) =
              Num (of_int 6079859496950169 * 2 powi (3 - 52))"
    by (rule roundToDouble_near) simp_all
  have m3: "roundToDouble (of_int 6079859496950169 * 2 powi (3 - 52) * 1000) =
              Num (of_int 5937362789990399 * 2 powi (13 - 52))"
    by (rule roundToDouble_near) simp_all
  have a: "roundToDouble (of_int 1000 + of_int 5937362789990399 * 2 powi (13 - 52)) =
             Num (of_int 6487118603878399 * 2 powi (13 - 52))"
    by (rule roundToDouble_near) simp_all
  have nz: "of_int 6917529027641082 * (2::rat) powi (- 9 - 52) \<noteq> 0" by simp
  have fl: "\<lfloor>(6487118603878399::rat) / 549755813888\<rfloor> = 11799"
    by (simp add: floor_eq_iff)
  have d: "newDate (Num (of_int 6487118603878399 * 2 powi (13 - 52))) = DateMs 11799"
    by (simp add: newDate_def truncateMs_def fl)
  show ?thesis
    unfolding jsonNumber_def h computeExpiresAt_cases(3) [OF nz] jsMul.simps(1) jsAdd.simps(1)
      m1 m2 m3 a d ..
qed

lemma allocate_zero_empty:
  "allocateInviteCode zeroDraws (snd (ensureUser emptyStore ''dev-a'')) 0 = Some ''aaaaaaaa''"
proof -
  have "allocateInviteCode zeroDraws (snd (ensureUser emptyStore ''dev-a'')) 0 =
          Some (generateInviteCode zeroDraws (0 + 8 * 0))"
    by (rule allocate_first_free; simp add: ensureUser_lookups gen_zero)
       (simp add: findGroupByCode_def emptyStore_def)
  then show ?thesis by (simp add: gen_zero)
qed

lemma ensureUser_empty:
  "ensureUser emptyStore ''dev-a'' =
     (\<lparr>u_id = 0, u_deviceToken = ''dev-a'', u_name = None\<rparr>,
      \<lparr>users = [\<lparr>u_id = 0, u_deviceToken = ''dev-a'', u_name = None\<rparr>], groups = [],
       groupMembers = [], nextId = 1\<rparr>)"
  by (simp add: ensureUser_def findUserByToken_def createUser_def emptyStore_def Let_def)

text \<open>
  Claim C4 says that whenever \<open>expirationHours\<close> is provided the stored group's
  \<open>expiresAt\<close> is the request-time clock plus that many hours. The code does not do so
  when \<open>expirationHours\<close> is provided as 0: the test \<open>body.expirationHours ? ... : null\<close>
  takes the number 0 for an absent field, the request is answered 201 at clock 1000,
  and the group is stored with \<open>expiresAt\<close> unset, so that it never expires, where the
  claim asks for an expiry at \<open>1000 + 0\<close> hours.
\<close>

theorem createGroup_zero_hours_unset:
  "c_expirationHours zeroHoursRequest = Some 0 \<and>
   createGroup zeroHoursRequest zeroDraws 1000 emptyStore =
     Some (\<lparr>status = 201,
            content = CreateGroupBody
              \<lparr>cr_groupId = 1, cr_inviteCode = ''aaaaaaaa'',
               cr_inviteUrl = ''https://coco.co/g/aaaaaaaa'', cr_modelId = ''m1'',
               cr_title = None, cr_description = None,
               cr_expiresAt = None, cr_memberCount = 1\<rparr>\<rparr>,
           \<lparr>users = [\<lparr>u_id = 0, u_deviceToken = ''dev-a'', u_name = None\<rparr>],
            groups = [\<lparr>g_id = 1, g_inviteCode = ''aaaaaaaa'', g_modelId = ''m1'', g_creatorId = 0,
                       g_title = None, g_description = None, g_expiresAt = None\<rparr>],
            groupMembers = [\<lparr>m_id = 2, m_userId = 0, m_groupId = 1\<rparr>],
            nextId = 3\<rparr>)"
proof -
  have f: "c_deviceToken zeroHoursRequest = Some ''dev-a''" "''dev-a'' \<noteq> []"
    "c_modelId zeroHoursRequest = Some ''m1''" "''m1'' \<noteq> []"
    by (simp_all add: zeroHoursRequest_def)
  have e: "computeExpiresAt (map_option jsonNumber (c_expirationHours zeroHoursRequest)) 1000 = None"
    by (simp add: zeroHoursRequest_def jsonNumber_zero computeExpiresAt_cases)
  have "createGroup zeroHoursRequest zeroDraws 1000 emptyStore =
     Some (\<lparr>status = 201,
            content = CreateGroupBody
              \<lparr>cr_groupId = 1, cr_inviteCode = ''aaaaaaaa'',
               cr_inviteUrl = ''https://coco.co/g/aaaaaaaa'', cr_modelId = ''m1'',
               cr_title = None, cr_description = None,
               cr_expiresAt = None, cr_memberCount = 1\<rparr>\<rparr>,
           \<lparr>users = [\<lparr>u_id = 0, u_deviceToken = ''dev-a'', u_name = None\<rparr>],
            groups = [\<lparr>g_id = 1, g_inviteCode = ''aaaaaaaa'', g_modelId = ''m1'', g_creatorId = 0,
                       g_title = None, g_description = None, g_expiresAt = None\<rparr>],
            groupMembers = [\<lparr>m_id = 2, m_userId = 0, m_groupId = 1\<rparr>],
            nextId = 3\<rparr>)"
    unfolding createGroup_allocated [OF f allocate_zero_empty] e
    by (simp add: ensureUser_empty createGroupRow_def createGroupMember_def jsonResponse_def Let_def)
       (simp add: zeroHoursRequest_def)
  then show ?thesis by (simp add: zeroHoursRequest_def)
qed

theorem createGroup_zero_hours_unset_witness:
  "(\<exists>r s. createGroup zeroHoursRequest zeroDraws 1000 emptyStore = Some (r, s) \<and>
           status r = 201 \<and> map g_expiresAt (groups s) = [None]) \<and>
   \<not> isGroupExpired None 2000"
proof -
  from createGroup_zero_hours_unset obtain r s where
    "createGroup zeroHoursRequest zeroDraws 1000 emptyStore = Some (r, s)"
    "status r = 201" "map g_expiresAt (groups s) = [None]"
    by simp
  then show ?thesis by (auto simp: isGroupExpired_def)
qed

subsection \<open>The create handler returns\<close>

text \<open>With both required fields present, the handler returns as soon as some round of
  the allocation loop draws a code that is not stored; the answer is 201, or 500 when
  the expiry is out of the range of dates.\<close>

lemma createGroup_returns:
  assumes "c_deviceToken body = Some tok" "tok \<noteq> []" "c_modelId body = Some mid" "mid \<noteq> []"
    and "findGroupByCode s (generateInviteCode rnd (0 + 8 * n)) = None"
  shows "\<exists>resp s'. createGroup body rnd now s = Some (resp, s') \<and>
           (status resp = 201 \<or> status resp = 500)"
proof -
  have "findGroupByCode (snd (ensureUser s tok)) (generateInviteCode rnd (0 + 8 * n)) = None"
    using assms(5) by (simp add: ensureUser_lookups)
  from allocate_returns [OF this] obtain code where
    "allocateInviteCode rnd (snd (ensureUser s tok)) 0 = Some code" by blast
  from createGroup_allocated [OF assms(1-4) this, of now] show ?thesis
    by (auto split: option.splits jsDate.splits)
qed

end
